theory Spec2Isabelle
  imports Complex_Main
begin

text \<open>
  The core of the spiral drawing application: the fixed-capacity segment buffer and the
  accumulation renderer with its post-processing stack, the generative music engine
  (lookahead scheduler, voice pool, note selection, ratio snapping), the reactive mapping
  of audio energy onto configuration values, and the beat detector.

  The first half of the theory is the model, one section per source class, each function
  under the name it has in the source. The second half states and proves the properties.
\<close>

section \<open>SpiralGeometry: the fixed-capacity segment buffer\<close>

text \<open>
  Source: \<^verbatim>\<open>src/app/renderer/SpiralGeometry.ts\<close>.
  The two \<^verbatim>\<open>Float32Array\<close>s are lists of fixed length \<open>MAX_SEGMENTS * 6\<close>. The numbers
  stored are taken as they are (the rounding of a store into a 32-bit float is not modelled).
  A write past the end of a typed array is ignored, which is also what \<open>xs[i := v]\<close> does.
\<close>

definition MAX_SEGMENTS :: nat where
  "MAX_SEGMENTS = 50000"

record LineMaterial =
  opacity :: real
  linewidth :: real
  resolution :: "real \<times> real"

record SpiralGeometry =
  segments :: "real list"
  rgbColors :: "real list"
  segmentCount :: nat
  material :: "LineMaterial option"
  posBuf_needsUpdate :: bool
  colBuf_needsUpdate :: bool
  instanceCount :: nat

text \<open>The constructor: both arrays zero-filled, no material yet, nothing to draw.\<close>

definition new_SpiralGeometry :: SpiralGeometry where
  "new_SpiralGeometry =
     \<lparr> segments = replicate (MAX_SEGMENTS * 6) 0,
       rgbColors = replicate (MAX_SEGMENTS * 6) 0,
       segmentCount = 0,
       material = None,
       posBuf_needsUpdate = False,
       colBuf_needsUpdate = False,
       instanceCount = 0 \<rparr>"

text \<open>
  \<^verbatim>\<open>TypedArray.prototype.copyWithin(target, start, end)\<close> for non-negative arguments:
  the three positions are clipped to the length, and \<open>min (end - start) (len - target)\<close>
  elements are moved (as if through a temporary copy).
\<close>

definition copyWithin :: "'a list \<Rightarrow> nat \<Rightarrow> nat \<Rightarrow> nat \<Rightarrow> 'a list" where
  "copyWithin xs target start fin =
     (let len = length xs;
          to = min target len;
          from = min start len;
          final = min fin len;
          count = min (final - from) (len - to)
      in take to xs @ take count (drop from xs) @ drop (to + count) xs)"

definition dropOldest :: "SpiralGeometry \<Rightarrow> SpiralGeometry" where
  "dropOldest g =
     (let keep = MAX_SEGMENTS div 2;
          offset = MAX_SEGMENTS - keep
      in g\<lparr> segments := copyWithin (segments g) 0 (offset * 6) (segmentCount g * 6),
            rgbColors := copyWithin (rgbColors g) 0 (offset * 6) (segmentCount g * 6),
            segmentCount := keep \<rparr>)"

definition appendSegment ::
  "SpiralGeometry \<Rightarrow> real \<Rightarrow> real \<Rightarrow> real \<Rightarrow> real \<Rightarrow> real \<Rightarrow> real \<Rightarrow> real \<Rightarrow> real \<Rightarrow> SpiralGeometry"
where
  "appendSegment g0 x1 y1 x2 y2 r gr b a =
     (let g = (if segmentCount g0 \<ge> MAX_SEGMENTS then dropOldest g0 else g0);
          si = segmentCount g * 6;
          segs = (segments g)[si := x1, si + 1 := y1, si + 2 := 0,
                              si + 3 := x2, si + 4 := y2, si + 5 := 0];
          cols = (rgbColors g)[si := r, si + 1 := gr, si + 2 := b,
                               si + 3 := r, si + 4 := gr, si + 5 := b];
          mat = (case material g of None \<Rightarrow> None | Some m \<Rightarrow> Some (m\<lparr>opacity := a\<rparr>));
          n = segmentCount g + 1
      in g\<lparr> segments := segs, rgbColors := cols, material := mat, segmentCount := n,
            posBuf_needsUpdate := True, colBuf_needsUpdate := True, instanceCount := n \<rparr>)"

definition setLineWidth_geometry :: "real \<Rightarrow> SpiralGeometry \<Rightarrow> SpiralGeometry" where
  "setLineWidth_geometry w g =
     g\<lparr> material := (case material g of None \<Rightarrow> None
                       | Some m \<Rightarrow> Some (m\<lparr>linewidth := max (1 / 10) w\<rparr>)) \<rparr>"

definition setResolution :: "real \<Rightarrow> real \<Rightarrow> SpiralGeometry \<Rightarrow> SpiralGeometry" where
  "setResolution w h g =
     g\<lparr> material := (case material g of None \<Rightarrow> None
                       | Some m \<Rightarrow> Some (m\<lparr>resolution := (w, h)\<rparr>)) \<rparr>"

definition reset :: "SpiralGeometry \<Rightarrow> SpiralGeometry" where
  "reset g = g\<lparr> segmentCount := 0, instanceCount := 0, posBuf_needsUpdate := True \<rparr>"

text \<open>
  The arguments of one \<^verbatim>\<open>appendSegment\<close> call, the six positions and six colour
  components it stores, and the segments a geometry holds: entry \<open>i\<close> is the pair of
  six-float slices at offset \<open>i * 6\<close>, for \<open>i\<close> below \<open>segmentCount\<close>.
\<close>

type_synonym segment_args = "real \<times> real \<times> real \<times> real \<times> real \<times> real \<times> real \<times> real"

fun appendArgs :: "SpiralGeometry \<Rightarrow> segment_args \<Rightarrow> SpiralGeometry" where
  "appendArgs g (x1, y1, x2, y2, r, gr, b, a) = appendSegment g x1 y1 x2 y2 r gr b a"

fun stored_form :: "segment_args \<Rightarrow> real list \<times> real list" where
  "stored_form (x1, y1, x2, y2, r, gr, b, a) = ([x1, y1, 0, x2, y2, 0], [r, gr, b, r, gr, b])"

definition segmentAt :: "SpiralGeometry \<Rightarrow> nat \<Rightarrow> real list \<times> real list" where
  "segmentAt g i = (take 6 (drop (i * 6) (segments g)), take 6 (drop (i * 6) (rgbColors g)))"

definition storedSegments :: "SpiralGeometry \<Rightarrow> (real list \<times> real list) list" where
  "storedSegments g = map (segmentAt g) [0..<segmentCount g]"

definition appendAll :: "SpiralGeometry \<Rightarrow> segment_args list \<Rightarrow> SpiralGeometry" where
  "appendAll g xs = foldl appendArgs g xs"

definition most_recent :: "nat \<Rightarrow> 'a list \<Rightarrow> 'a list" where
  "most_recent n xs = drop (length xs - n) xs"

definition geometry_wf :: "SpiralGeometry \<Rightarrow> bool" where
  "geometry_wf g \<longleftrightarrow>
     length (segments g) = MAX_SEGMENTS * 6 \<and>
     length (rgbColors g) = MAX_SEGMENTS * 6 \<and>
     segmentCount g \<le> MAX_SEGMENTS"

section \<open>PostProcessor and SpiralRenderer\<close>

text \<open>
  Sources: \<^verbatim>\<open>src/app/renderer/PostProcessor.ts\<close> and \<^verbatim>\<open>src/unnamed/part_009\<close>
  (class \<^verbatim>\<open>SpiralRenderer\<close>), with the resize handler of the animation hook
  (\<^verbatim>\<open>src/app/panels/AudioPanel.tsx\<close>, \<^verbatim>\<open>handleResize\<close>).

  What a render target or the canvas holds is a symbolic \<open>image\<close>: how the pixels were
  produced, not the pixels. \<open>Blank\<close> is a newly allocated buffer, \<open>Cleared c a\<close> the result
  of \<^verbatim>\<open>renderer.clear()\<close> with clear colour \<open>c\<close> and alpha \<open>a\<close>, \<open>Drawn img segs\<close> the
  line segments \<open>segs\<close> drawn over \<open>img\<close> without clearing, \<open>Mix cur prev f\<close> the output of
  the trail shader, and \<open>Effects ps img\<close> the output of the composer's enabled passes. A
  full-screen opaque quad replaces the whole target, so a blit makes the target hold the
  image of the texture it samples. The WebGL renderer and the
  accumulation target are objects shared by \<^verbatim>\<open>SpiralRenderer\<close> and \<^verbatim>\<open>PostProcessor\<close>;
  here the renderer state is passed through the PostProcessor's methods and returned, and
  the accumulation target (which the PostProcessor only reads) is an argument.
\<close>

datatype texture = AccumTexture | TrailTextureA | TrailTextureB

datatype target = Canvas | AccumTarget | TrailTargetA | TrailTargetB | ComposerReadBuffer

datatype pass = Bloom real real real | RGBShift real | Vignette real real | Film real

datatype image =
    Blank
  | Cleared nat real
  | Drawn image "(real list \<times> real list) list"
  | Mix image image real
  | Effects "pass list" image

record RenderTarget =
  rt_width :: int
  rt_height :: int
  pixels :: image

record WebGLRenderer =
  css_size :: "real \<times> real"
  pixelRatio :: real
  clearColor :: nat
  clearAlpha :: real
  autoClear :: bool
  currentTarget :: target
  canvas :: image

record OrthographicCamera =
  cam_left :: real
  cam_right :: real
  cam_top :: real
  cam_bottom :: real

record RenderSettings =
  bloomEnabled :: bool
  bloomIntensity :: real
  bloomThreshold :: real
  bloomRadius :: real
  motionTrail :: real
  chromaticAberrationEnabled :: bool
  chromaticAberration :: real
  vignetteEnabled :: bool
  vignetteIntensity :: real
  filmGrainEnabled :: bool
  filmGrain :: real

text \<open>\<^verbatim>\<open>Math.round\<close>: the nearest integer, a half rounded up.\<close>

definition js_round :: "real \<Rightarrow> int" where
  "js_round x = \<lfloor>x + 1 / 2\<rfloor>"

text \<open>
  \<^verbatim>\<open>WebGLRenderTarget.setSize\<close> reallocates the target when a dimension changes, and
  the old content is lost. \<^verbatim>\<open>WebGLRenderer.setSize\<close> sets the canvas size, which
  resets the drawing buffer.
\<close>

definition rt_setSize :: "int \<Rightarrow> int \<Rightarrow> RenderTarget \<Rightarrow> RenderTarget" where
  "rt_setSize w h rt =
     (if rt_width rt \<noteq> w \<or> rt_height rt \<noteq> h
      then \<lparr> rt_width = w, rt_height = h, pixels = Blank \<rparr>
      else rt)"

definition renderer_setSize :: "real \<Rightarrow> real \<Rightarrow> WebGLRenderer \<Rightarrow> WebGLRenderer" where
  "renderer_setSize w h r = r\<lparr> css_size := (w, h), canvas := Blank \<rparr>"

subsection \<open>PostProcessor\<close>

text \<open>
  \<^verbatim>\<open>init\<close> assigns every nullable field of the class in one go and nothing sets one back
  to null, so the null tests of \<^verbatim>\<open>render\<close>, \<^verbatim>\<open>resize\<close> and \<^verbatim>\<open>clearTrail\<close> are all
  decided by one flag, \<open>initialised\<close>; the other fields mean something only once it is set.
  The uniforms of the trail material, the material of the copy quad, the composer's read
  buffer and the parameters of the four passes are fields of the same record.
\<close>

record PostProcessor =
  initialised :: bool
  trailTargetA :: RenderTarget
  trailTargetB :: RenderTarget
  trailWriteIdx :: int
  tDiffuse :: "texture option"
  tPrevious :: "texture option"
  mixFactor :: real
  copyMat_map :: "texture option"
  composer_size :: "real \<times> real"
  readBuffer :: image
  bloom_enabled :: bool
  bloom_strength :: real
  bloom_radius :: real
  bloom_threshold :: real
  bloom_resolution :: "real \<times> real"
  chroma_enabled :: bool
  chroma_amount :: real
  vig_enabled :: bool
  vig_offset :: real
  vig_darkness :: real
  film_enabled :: bool
  film_intensity :: real

definition new_PostProcessor :: PostProcessor where
  "new_PostProcessor =
     \<lparr> initialised = False,
       trailTargetA = \<lparr> rt_width = 0, rt_height = 0, pixels = Blank \<rparr>,
       trailTargetB = \<lparr> rt_width = 0, rt_height = 0, pixels = Blank \<rparr>,
       trailWriteIdx = 0,
       tDiffuse = None, tPrevious = None, mixFactor = 0,
       copyMat_map = None,
       composer_size = (0, 0), readBuffer = Blank,
       bloom_enabled = False, bloom_strength = 0, bloom_radius = 0, bloom_threshold = 0,
       bloom_resolution = (0, 0),
       chroma_enabled = False, chroma_amount = 0,
       vig_enabled = False, vig_offset = 0, vig_darkness = 0,
       film_enabled = False, film_intensity = 0 \<rparr>"

definition pp_init :: "WebGLRenderer \<Rightarrow> real \<Rightarrow> real \<Rightarrow> PostProcessor \<Rightarrow> PostProcessor" where
  "pp_init r w h p =
     (let dpr = pixelRatio r;
          physW = js_round (w * dpr);
          physH = js_round (h * dpr)
      in p\<lparr> initialised := True,
            trailTargetA := \<lparr> rt_width = physW, rt_height = physH, pixels = Blank \<rparr>,
            trailTargetB := \<lparr> rt_width = physW, rt_height = physH, pixels = Blank \<rparr>,
            tDiffuse := None, tPrevious := None, mixFactor := 0,
            copyMat_map := None,
            composer_size := (w, h), readBuffer := Blank,
            bloom_enabled := False, bloom_strength := 1 / 2, bloom_radius := 4 / 10,
            bloom_threshold := 85 / 100, bloom_resolution := (w, h),
            chroma_enabled := False, chroma_amount := 5 / 1000,
            vig_enabled := False, vig_offset := 1, vig_darkness := 1,
            film_enabled := False, film_intensity := 1 / 2 \<rparr>)"

definition texture_image :: "RenderTarget \<Rightarrow> PostProcessor \<Rightarrow> texture \<Rightarrow> image" where
  "texture_image accum p t =
     (case t of
        AccumTexture \<Rightarrow> pixels accum
      | TrailTextureA \<Rightarrow> pixels (trailTargetA p)
      | TrailTextureB \<Rightarrow> pixels (trailTargetB p))"

text \<open>
  The motion-trail branch of \<^verbatim>\<open>render\<close>: blend the accumulation texture with the previous
  trail buffer into the current one, flip the index, and hand the current buffer on as
  the source texture.
\<close>

definition trailBlend ::
  "RenderSettings \<Rightarrow> RenderTarget \<Rightarrow> WebGLRenderer \<times> PostProcessor
     \<Rightarrow> WebGLRenderer \<times> PostProcessor \<times> texture"
where
  "trailBlend settings accum rp =
     (let r = fst rp; p = snd rp;
          prevTex = (if trailWriteIdx p = 0 then TrailTextureB else TrailTextureA);
          currTex = (if trailWriteIdx p = 0 then TrailTextureA else TrailTextureB);
          p1 = p\<lparr> tDiffuse := Some AccumTexture, tPrevious := Some prevTex,
                  mixFactor := motionTrail settings \<rparr>;
          out = Mix (pixels accum) (texture_image accum p1 prevTex) (mixFactor p1);
          p2 = (if trailWriteIdx p = 0
                then p1\<lparr> trailTargetA := (trailTargetA p1)\<lparr> pixels := out \<rparr> \<rparr>
                else p1\<lparr> trailTargetB := (trailTargetB p1)\<lparr> pixels := out \<rparr> \<rparr>);
          r1 = r\<lparr> autoClear := True, currentTarget := Canvas \<rparr>
      in (r1, p2\<lparr> trailWriteIdx := 1 - trailWriteIdx p \<rparr>, currTex))"

definition updatePassParams :: "RenderSettings \<Rightarrow> PostProcessor \<Rightarrow> PostProcessor" where
  "updatePassParams s p =
     p\<lparr> bloom_enabled := bloomEnabled s,
        bloom_strength := (if bloomEnabled s then bloomIntensity s else bloom_strength p),
        bloom_radius := (if bloomEnabled s then bloomRadius s else bloom_radius p),
        bloom_threshold := (if bloomEnabled s then bloomThreshold s else bloom_threshold p),
        chroma_enabled := chromaticAberrationEnabled s,
        chroma_amount := (if chromaticAberrationEnabled s
                          then chromaticAberration s * (2 / 100) else chroma_amount p),
        vig_enabled := vignetteEnabled s,
        vig_offset := (if vignetteEnabled s then 1 else vig_offset p),
        vig_darkness := (if vignetteEnabled s then vignetteIntensity s * 2 else vig_darkness p),
        film_enabled := filmGrainEnabled s,
        film_intensity := (if filmGrainEnabled s then filmGrain s else film_intensity p) \<rparr>"

definition enabledPasses :: "PostProcessor \<Rightarrow> pass list" where
  "enabledPasses p =
     (if bloom_enabled p then [Bloom (bloom_strength p) (bloom_radius p) (bloom_threshold p)] else [])
     @ (if chroma_enabled p then [RGBShift (chroma_amount p)] else [])
     @ (if vig_enabled p then [Vignette (vig_offset p) (vig_darkness p)] else [])
     @ (if film_enabled p then [Film (film_intensity p)] else [])"

text \<open>
  \<^verbatim>\<open>PostProcessor.render\<close>. The composer runs its enabled passes on the read buffer and
  writes the canvas; it restores the render target it found.
\<close>

definition pp_render ::
  "RenderSettings \<Rightarrow> RenderTarget \<Rightarrow> WebGLRenderer \<times> PostProcessor
     \<Rightarrow> WebGLRenderer \<times> PostProcessor"
where
  "pp_render settings accum rp =
     (if \<not> initialised (snd rp) then rp
      else
        let (r1, p1, sourceTexture) =
              (if motionTrail settings > 0 then trailBlend settings accum rp
               else (fst rp, snd rp, AccumTexture));
            p2 = updatePassParams settings p1;
            anyPassEnabled = (bloom_enabled p2 \<or> chroma_enabled p2 \<or> vig_enabled p2
                              \<or> film_enabled p2);
            p3 = p2\<lparr> copyMat_map := Some sourceTexture,
                      readBuffer := texture_image accum p2 sourceTexture \<rparr>;
            r2 = r1\<lparr> autoClear := True, currentTarget := ComposerReadBuffer \<rparr>
        in if anyPassEnabled
           then (r2\<lparr> autoClear := False,
                     canvas := Effects (enabledPasses p3) (readBuffer p3) \<rparr>, p3)
           else (r2\<lparr> autoClear := True, currentTarget := Canvas,
                     canvas := texture_image accum p3 sourceTexture \<rparr>, p3))"

definition pp_resize :: "real \<Rightarrow> real \<Rightarrow> WebGLRenderer \<Rightarrow> PostProcessor \<Rightarrow> PostProcessor" where
  "pp_resize w h r p =
     (if \<not> initialised p then p
      else
        let dpr = pixelRatio r;
            physW = js_round (w * dpr);
            physH = js_round (h * dpr)
        in p\<lparr> trailTargetA := rt_setSize physW physH (trailTargetA p),
              trailTargetB := rt_setSize physW physH (trailTargetB p),
              composer_size := (w, h),
              readBuffer := (if composer_size p = (w, h) then readBuffer p else Blank),
              bloom_resolution := (w, h) \<rparr>)"

definition clearTrail :: "WebGLRenderer \<times> PostProcessor \<Rightarrow> WebGLRenderer \<times> PostProcessor" where
  "clearTrail rp =
     (let r = fst rp; p = snd rp
      in if \<not> initialised p then rp
         else
           let prev = currentTarget r;
               r1 = r\<lparr> autoClear := True \<rparr>;
               blank = Cleared (clearColor r1) (clearAlpha r1);
               p1 = p\<lparr> trailTargetA := (trailTargetA p)\<lparr> pixels := blank \<rparr>,
                       trailTargetB := (trailTargetB p)\<lparr> pixels := blank \<rparr> \<rparr>
           in (r1\<lparr> currentTarget := prev \<rparr>, p1\<lparr> trailWriteIdx := 0 \<rparr>))"

subsection \<open>SpiralRenderer\<close>

record SpiralRenderer =
  renderer :: WebGLRenderer
  camera :: OrthographicCamera
  accumTarget :: RenderTarget
  width :: real
  height :: real
  geometry :: "SpiralGeometry option"
  postProcessor :: "PostProcessor option"
  renderSettings :: "RenderSettings option"

definition initPostProcessing :: "RenderSettings \<Rightarrow> SpiralRenderer \<Rightarrow> SpiralRenderer" where
  "initPostProcessing settings s =
     s\<lparr> renderSettings := Some settings,
        postProcessor := Some (pp_init (renderer s) (width s) (height s) new_PostProcessor) \<rparr>"

definition resize :: "real \<Rightarrow> real \<Rightarrow> SpiralRenderer \<Rightarrow> SpiralRenderer" where
  "resize w h s =
     (if w = width s \<and> h = height s then s
      else
        let r = renderer_setSize w h (renderer s);
            hw = w / 2;
            hh = h / 2;
            cam = (camera s)\<lparr> cam_left := - hw, cam_right := hw, cam_top := hh, cam_bottom := - hh \<rparr>;
            dpr = pixelRatio r;
            accum = rt_setSize (js_round (w * dpr)) (js_round (h * dpr)) (accumTarget s)
        in s\<lparr> width := w, height := h, renderer := r, camera := cam, accumTarget := accum,
              geometry := map_option (setResolution w h) (geometry s),
              postProcessor := map_option (pp_resize w h r) (postProcessor s) \<rparr>)"

text \<open>
  The only caller of \<^verbatim>\<open>resize\<close>: the \<^verbatim>\<open>ResizeObserver\<close> callback. The canvas is given
  by its \<^verbatim>\<open>offsetWidth\<close> and \<^verbatim>\<open>offsetHeight\<close>; either reference may be null.
\<close>

definition handleResize ::
  "(real \<times> real) option \<Rightarrow> SpiralRenderer option \<Rightarrow> SpiralRenderer option"
where
  "handleResize canvasRef rendererRef =
     (case (canvasRef, rendererRef) of
        (Some (w, h), Some s) \<Rightarrow> (if w > 0 \<and> h > 0 then Some (resize w h s) else Some s)
      | _ \<Rightarrow> rendererRef)"

definition clear :: "SpiralRenderer \<Rightarrow> SpiralRenderer" where
  "clear s =
     (let g = map_option reset (geometry s);
          r1 = (renderer s)\<lparr> currentTarget := AccumTarget, clearColor := 0, clearAlpha := 1 \<rparr>;
          accum = (accumTarget s)\<lparr> pixels := Cleared (clearColor r1) (clearAlpha r1) \<rparr>;
          r2 = r1\<lparr> currentTarget := Canvas, canvas := pixels accum \<rparr>
      in case postProcessor s of
           None \<Rightarrow> s\<lparr> geometry := g, renderer := r2, accumTarget := accum \<rparr>
         | Some p \<Rightarrow>
             (let (r3, p') = clearTrail (r2, p)
              in s\<lparr> geometry := g, renderer := r3, accumTarget := accum,
                    postProcessor := Some p' \<rparr>))"

subsection \<open>A concrete renderer\<close>

text \<open>
  An 800 by 600 canvas at device pixel ratio 2 with post-processing initialised, one
  segment appended, and the trail index at 1 as after one trail frame.
\<close>

definition sample_renderer :: WebGLRenderer where
  "sample_renderer =
     \<lparr> css_size = (800, 600), pixelRatio = 2, clearColor = 0, clearAlpha = 1,
       autoClear = False, currentTarget = Canvas, canvas = Blank \<rparr>"

definition sample_accum :: RenderTarget where
  "sample_accum =
     \<lparr> rt_width = 1600, rt_height = 1200,
       pixels = Drawn Blank [([0, 0, 0, 3, 4, 0], [1, 0, 0, 1, 0, 0])] \<rparr>"

definition sample_settings :: RenderSettings where
  "sample_settings =
     \<lparr> bloomEnabled = True, bloomIntensity = 1 / 2, bloomThreshold = 85 / 100,
       bloomRadius = 4 / 10, motionTrail = 0,
       chromaticAberrationEnabled = False, chromaticAberration = 0,
       vignetteEnabled = False, vignetteIntensity = 0,
       filmGrainEnabled = False, filmGrain = 0 \<rparr>"

definition sample_postProcessor :: PostProcessor where
  "sample_postProcessor =
     (pp_init sample_renderer 800 600 new_PostProcessor)
       \<lparr> trailWriteIdx := 1,
         trailTargetA := \<lparr> rt_width = 1600, rt_height = 1200,
                           pixels = Mix (Drawn Blank [([0, 0, 0, 3, 4, 0], [1, 0, 0, 1, 0, 0])]) Blank
                                        (1 / 2) \<rparr> \<rparr>"

definition sample_SpiralRenderer :: SpiralRenderer where
  "sample_SpiralRenderer =
     \<lparr> renderer = sample_renderer,
       camera = \<lparr> cam_left = - 400, cam_right = 400, cam_top = 300, cam_bottom = - 300 \<rparr>,
       accumTarget = sample_accum,
       width = 800, height = 600,
       geometry = Some (appendSegment new_SpiralGeometry 0 0 3 4 1 0 0 1),
       postProcessor = Some sample_postProcessor,
       renderSettings = Some sample_settings \<rparr>"

section \<open>SpiralMusicEngine: the generative music engine\<close>

text \<open>
  Source: \<^verbatim>\<open>src/unnamed/part_000\<close> (first file, class \<^verbatim>\<open>SpiralMusicEngine\<close> and its
  helpers). JavaScript numbers are real numbers here (floating-point rounding, infinities
  and NaN are not modelled); MIDI note numbers and scale degrees are integers. A call of
  \<^verbatim>\<open>Math.random()\<close> is an argument of the function that makes it: one real per call, which
  the runtime promises to be at least 0 and less than 1.
\<close>

subsection \<open>Harmonic ratio snapping\<close>

definition SIMPLE_RATIOS :: "real list" where
  "SIMPLE_RATIOS = [1, 5 / 4, 1333 / 1000, 3 / 2, 2, 5 / 2, 3, 4, 8]"

text \<open>
  The \<^verbatim>\<open>for\<close> loop of \<^verbatim>\<open>snapToSimpleRatio\<close> over the remaining table entries, on the pair
  \<open>(best, bestDist)\<close>; \<open>None\<close> is the initial \<^verbatim>\<open>Infinity\<close>, below which every distance lies.
\<close>

fun snapLoop :: "real \<Rightarrow> real list \<Rightarrow> real \<times> real option \<Rightarrow> real \<times> real option" where
  "snapLoop clamped [] acc = acc"
| "snapLoop clamped (r # rs) (best, bestDist) =
     (let dist = \<bar>clamped - r\<bar> / r
      in if (case bestDist of None \<Rightarrow> True | Some d \<Rightarrow> dist < d)
         then snapLoop clamped rs (r, Some dist)
         else snapLoop clamped rs (best, bestDist))"

definition snapToSimpleRatio :: "real \<Rightarrow> real" where
  "snapToSimpleRatio ratio =
     (let clamped = max 1 (min 8 ratio);
          (best, bestDist) = snapLoop clamped SIMPLE_RATIOS (hd SIMPLE_RATIOS, None)
      in case bestDist of
           None \<Rightarrow> clamped
         | Some d \<Rightarrow> (if d < 15 / 100 then best else clamped))"

text \<open>The relative distance the loop computes, for stating what it finds.\<close>

definition relativeDistance :: "real \<Rightarrow> real \<Rightarrow> real" where
  "relativeDistance clamped r = \<bar>clamped - r\<bar> / r"

definition exponentialRandom :: "real \<Rightarrow> real \<Rightarrow> real" where
  "exponentialRandom mean u = - mean * ln (max (1 / 10 ^ 9) u)"

subsection \<open>Audio parameters and voices\<close>

text \<open>
  A gain \<^verbatim>\<open>AudioParam\<close> is its intrinsic value and the automation events scheduled on it
  and not cancelled, in the order of the calls. \<^verbatim>\<open>cancelScheduledValues(t)\<close> removes
  every event at time \<open>t\<close> or later. Oscillator and filter frequencies, the FM pad's two
  voices and the noise-burst chain are sinks that no decision of the engine reads; they
  are left out of the state, and so is the release timer registered for each claimed
  voice, whose firing is the separate step \<open>releaseVoice\<close>.
\<close>

datatype event = SetValueAtTime real real | LinearRampToValueAtTime real real

fun event_time :: "event \<Rightarrow> real" where
  "event_time (SetValueAtTime v t) = t"
| "event_time (LinearRampToValueAtTime v t) = t"

record AudioParam =
  intrinsic :: real
  events :: "event list"

definition cancelScheduledValues :: "real \<Rightarrow> AudioParam \<Rightarrow> AudioParam" where
  "cancelScheduledValues t p = p\<lparr> events := filter (\<lambda>ev. event_time ev < t) (events p) \<rparr>"

definition setValueAtTime :: "real \<Rightarrow> real \<Rightarrow> AudioParam \<Rightarrow> AudioParam" where
  "setValueAtTime v t p = p\<lparr> events := events p @ [SetValueAtTime v t] \<rparr>"

definition linearRampToValueAtTime :: "real \<Rightarrow> real \<Rightarrow> AudioParam \<Rightarrow> AudioParam" where
  "linearRampToValueAtTime v t p = p\<lparr> events := events p @ [LinearRampToValueAtTime v t] \<rparr>"

text \<open>The automation of a parameter from time \<open>t\<close> on.\<close>

definition scheduledFrom :: "real \<Rightarrow> AudioParam \<Rightarrow> event list" where
  "scheduledFrom t p = filter (\<lambda>ev. t \<le> event_time ev) (events p)"

record Voice =
  gain :: AudioParam
  busy :: bool

record AudioContext =
  currentTime :: real
  suspended :: bool

record AudioState =
  musicDensity :: real
  droneEnabled :: bool
  melodyEnabled :: bool
  sparkleEnabled :: bool

record NextTime =
  drone :: real
  melody :: real
  sparkle :: real

text \<open>
  The engine. \<open>masterGain_set\<close> says that \<^verbatim>\<open>masterGain\<close> is not null, \<open>config_set\<close> that
  \<^verbatim>\<open>config\<close> is not null, \<open>noise_ready\<close> that the noise buffer, filter and gain exist.
\<close>

record Engine =
  ctx :: "AudioContext option"
  masterGain_set :: bool
  config_set :: bool
  audioState :: "AudioState option"
  nextTime :: NextTime
  voicePool :: "Voice list"
  lastMelodyMidi :: int
  currentScale :: "int list"
  rootMidi :: int
  noise_ready :: bool
  schedulerRunning :: bool

definition LOOKAHEAD :: real where
  "LOOKAHEAD = 25 / 1000"

definition pentatonic_minor :: "int list" where
  "pentatonic_minor = [0, 3, 5, 7, 10]"

definition new_Engine :: Engine where
  "new_Engine =
     \<lparr> ctx = None, masterGain_set = False, config_set = False, audioState = None,
       nextTime = \<lparr> drone = 0, melody = 0, sparkle = 0 \<rparr>,
       voicePool = [],
       lastMelodyMidi = 60,
       currentScale = pentatonic_minor,
       rootMidi = 60,
       noise_ready = False,
       schedulerRunning = False \<rparr>"

definition new_Voice :: Voice where
  "new_Voice = \<lparr> gain = \<lparr> intrinsic = 0, events = [] \<rparr>, busy = False \<rparr>"

definition init :: "AudioContext \<Rightarrow> Engine \<Rightarrow> Engine" where
  "init c e =
     (if masterGain_set e then e
      else e\<lparr> ctx := Some c, masterGain_set := True,
              voicePool := voicePool e @ replicate 6 new_Voice,
              noise_ready := True, schedulerRunning := True \<rparr>)"

definition dispose :: "Engine \<Rightarrow> Engine" where
  "dispose e =
     e\<lparr> schedulerRunning := False, voicePool := [], masterGain_set := False,
        ctx := None, config_set := False, audioState := None \<rparr>"

text \<open>The callback of a release timer: the voice at one index is free again.\<close>

definition releaseVoice :: "nat \<Rightarrow> Engine \<Rightarrow> Engine" where
  "releaseVoice i e = e\<lparr> voicePool := (voicePool e)[i := (voicePool e ! i)\<lparr> busy := False \<rparr>] \<rparr>"

subsection \<open>Voice allocation\<close>

text \<open>\<^verbatim>\<open>Array.prototype.find\<close>, by index: the first element that satisfies the test.\<close>

fun findIndex :: "('a \<Rightarrow> bool) \<Rightarrow> 'a list \<Rightarrow> nat option" where
  "findIndex P [] = None"
| "findIndex P (x # xs) = (if P x then Some 0 else map_option Suc (findIndex P xs))"

text \<open>
  \<^verbatim>\<open>_claimVoice(now)\<close> on the pool. A voice is named by its index in the pool. \<open>None\<close>
  is the \<^verbatim>\<open>TypeError\<close> of reading \<^verbatim>\<open>.gain\<close> of \<^verbatim>\<open>undefined\<close>, when the random index
  names no voice. \<open>rnd\<close> is the \<^verbatim>\<open>Math.random()\<close> of the steal branch.
\<close>

definition claimVoice :: "real \<Rightarrow> real \<Rightarrow> Voice list \<Rightarrow> (nat \<times> Voice list) option" where
  "claimVoice now rnd pool =
     (case findIndex (\<lambda>v. \<not> busy v) pool of
        Some i \<Rightarrow> Some (i, pool[i := (pool ! i)\<lparr> busy := True \<rparr>])
      | None \<Rightarrow>
          (let j = \<lfloor>rnd * real (length pool)\<rfloor>
           in if 0 \<le> j \<and> nat j < length pool
              then Some (nat j,
                     pool[nat j := (pool ! nat j)
                        \<lparr> gain := setValueAtTime 0 now
                                    (cancelScheduledValues now (gain (pool ! nat j))),
                          busy := True \<rparr>])
              else None))"

subsection \<open>Melody note selection\<close>

definition candidateNotes :: "int \<Rightarrow> int list \<Rightarrow> int list" where
  "candidateNotes rootNote scaleDegrees =
     concat (map (\<lambda>oct. filter (\<lambda>midi. 48 \<le> midi \<and> midi \<le> 84)
                          (map (\<lambda>interval. rootNote + oct * 12 + interval) scaleDegrees))
                 [- 1, 0, 1, 2])"

definition stepwiseNotes :: "int \<Rightarrow> int list \<Rightarrow> int list" where
  "stepwiseNotes lastNote candidates =
     filter (\<lambda>n. \<bar>n - lastNote\<bar> \<le> 5 \<and> n \<noteq> lastNote) candidates"

definition leapNotes :: "int \<Rightarrow> int list \<Rightarrow> int list" where
  "leapNotes lastNote candidates =
     filter (\<lambda>n. \<bar>n - lastNote\<bar> > 5 \<and> n \<noteq> lastNote) candidates"

text \<open>
  \<^verbatim>\<open>_nextMelodyNote()\<close>, with its two random numbers: \<open>r1\<close> chooses the bucket and \<open>r2\<close>
  the index. \<open>None\<close> is \<^verbatim>\<open>undefined\<close>, the value of an array read out of range.
\<close>

definition nextMelodyNote :: "real \<Rightarrow> real \<Rightarrow> Engine \<Rightarrow> int option" where
  "nextMelodyNote r1 r2 e =
     (let lastNote = lastMelodyMidi e;
          candidates = candidateNotes (rootMidi e) (currentScale e)
      in if candidates = [] then Some 60
         else
           let stepwise = stepwiseNotes lastNote candidates;
               leaps = leapNotes lastNote candidates;
               pool = (if r1 < 7 / 10 \<and> stepwise \<noteq> [] then stepwise
                       else if leaps \<noteq> [] then leaps else candidates);
               i = \<lfloor>r2 * real (length pool)\<rfloor>
           in if 0 \<le> i \<and> nat i < length pool then Some (pool ! nat i) else None)"

subsection \<open>The three layers and the scheduler\<close>

definition scheduleDrone :: "Engine \<Rightarrow> Engine" where
  "scheduleDrone e =
     (case (ctx e, audioState e) of
        (Some c, Some st) \<Rightarrow>
          (let now = max (currentTime c) (drone (nextTime e));
               density = musicDensity st;
               interval = 8 + (1 - density) * 12
           in e\<lparr> nextTime := (nextTime e)\<lparr> drone := now + interval \<rparr> \<rparr>)
      | _ \<Rightarrow> e)"

text \<open>The gain envelope of the main voice of a note, and that of an extra partial.\<close>

definition mainEnvelope :: "real \<Rightarrow> real \<Rightarrow> real \<Rightarrow> real \<Rightarrow> real \<Rightarrow> AudioParam \<Rightarrow> AudioParam" where
  "mainEnvelope now attack sustain release partialGain g =
     linearRampToValueAtTime 0 (now + attack + sustain + release)
       (setValueAtTime partialGain (now + attack + sustain)
         (linearRampToValueAtTime partialGain (now + attack)
           (setValueAtTime 0 now
             (cancelScheduledValues now g))))"

definition partialEnvelope :: "real \<Rightarrow> real \<Rightarrow> real \<Rightarrow> real \<Rightarrow> real \<Rightarrow> AudioParam \<Rightarrow> AudioParam" where
  "partialEnvelope now attack sustain release partialGain g =
     linearRampToValueAtTime 0 (now + attack + sustain * (6 / 10) + release)
       (setValueAtTime (partialGain * (8 / 10)) (now + attack + sustain * (6 / 10))
         (linearRampToValueAtTime partialGain (now + attack)
           (setValueAtTime 0 now
             (cancelScheduledValues now g))))"

record MelodyDraws =
  bucketDraw :: real
  indexDraw :: real
  stealDraw0 :: real
  stealDraw1 :: real
  stealDraw2 :: real

text \<open>
  \<^verbatim>\<open>_scheduleMelody()\<close>: the next note, the main voice, then the loop over the three
  partials unrolled (partial 0 uses the main voice; partials 1 and 2 each claim a voice).
  \<open>None\<close>: the call is cut short by a \<^verbatim>\<open>TypeError\<close> (no voice to steal, or an undefined
  note, whose frequency no \<^verbatim>\<open>AudioParam\<close> accepts).
\<close>

definition scheduleMelody :: "MelodyDraws \<Rightarrow> Engine \<Rightarrow> Engine option" where
  "scheduleMelody d e =
     (case (ctx e, audioState e) of
        (Some c, Some st) \<Rightarrow>
          (if \<not> config_set e then Some e
           else
             let now = max (currentTime c) (melody (nextTime e));
                 density = musicDensity st;
                 interval = 3 / 2 + (1 - density) * (9 / 2);
                 attack = 8 / 100;
                 sustain = interval * (1 / 2) + 3 / 10;
                 release = 45 / 100;
                 peak = 12 / 100
             in case nextMelodyNote (bucketDraw d) (indexDraw d) e of
                  None \<Rightarrow> None
                | Some nextMidi \<Rightarrow>
                   (case claimVoice now (stealDraw0 d) (voicePool e) of
                      None \<Rightarrow> None
                    | Some (voice, pool0) \<Rightarrow>
                       (let pool1 = pool0[voice := (pool0 ! voice)
                               \<lparr> gain := mainEnvelope now attack sustain release
                                            (peak * (55 / 100) ^ 0) (gain (pool0 ! voice)) \<rparr>]
                        in case claimVoice now (stealDraw1 d) pool1 of
                             None \<Rightarrow> None
                           | Some (pv1, pool2) \<Rightarrow>
                              (let pool3 = pool2[pv1 := (pool2 ! pv1)
                                      \<lparr> gain := partialEnvelope now attack sustain release
                                                   (peak * (55 / 100) ^ 1) (gain (pool2 ! pv1)) \<rparr>]
                               in case claimVoice now (stealDraw2 d) pool3 of
                                    None \<Rightarrow> None
                                  | Some (pv2, pool4) \<Rightarrow>
                                     (let pool5 = pool4[pv2 := (pool4 ! pv2)
                                             \<lparr> gain := partialEnvelope now attack sustain release
                                                          (peak * (55 / 100) ^ 2)
                                                          (gain (pool4 ! pv2)) \<rparr>]
                                      in Some (e\<lparr> lastMelodyMidi := nextMidi,
                                                  voicePool := pool5,
                                                  nextTime := (nextTime e)
                                                    \<lparr> melody := now + interval \<rparr> \<rparr>))))))
      | _ \<Rightarrow> Some e)"

definition scheduleSparkle :: "real \<Rightarrow> Engine \<Rightarrow> Engine" where
  "scheduleSparkle u e =
     (case (ctx e, audioState e) of
        (Some c, Some st) \<Rightarrow>
          (if \<not> noise_ready e then e
           else
             let now = max (currentTime c) (sparkle (nextTime e));
                 density = musicDensity st;
                 mean = 1 / 2 + (1 - density) * (5 / 2);
                 interval = exponentialRandom mean u
             in e\<lparr> nextTime := (nextTime e)\<lparr> sparkle := now + max (1 / 10) interval \<rparr> \<rparr>)
      | _ \<Rightarrow> e)"

datatype layer = Drone | Melody | Sparkle

fun layerTime :: "layer \<Rightarrow> NextTime \<Rightarrow> real" where
  "layerTime Drone nt = drone nt"
| "layerTime Melody nt = melody nt"
| "layerTime Sparkle nt = sparkle nt"

record Draws =
  melodyDraws :: MelodyDraws
  sparkleDraw :: real

text \<open>
  One run of the \<^verbatim>\<open>setInterval\<close> callback of \<^verbatim>\<open>_runScheduler\<close>. It returns, with the
  new engine, the layers whose schedule function it called, in order. \<open>None\<close>: the
  melody layer raised.
\<close>

definition schedulerTick :: "Draws \<Rightarrow> Engine \<Rightarrow> (layer list \<times> Engine) option" where
  "schedulerTick d e =
     (case (ctx e, audioState e) of
        (Some c, Some st) \<Rightarrow>
          (if \<not> config_set e then Some ([], e)
           else if suspended c then Some ([], e)
           else
             let now = currentTime c;
                 lookahead = now + LOOKAHEAD;
                 (calls1, e1) = (if droneEnabled st \<and> drone (nextTime e) < lookahead
                                 then ([Drone], scheduleDrone e) else ([], e))
             in case (if melodyEnabled st \<and> melody (nextTime e1) < lookahead
                      then map_option (Pair [Melody]) (scheduleMelody (melodyDraws d) e1)
                      else Some ([], e1)) of
                  None \<Rightarrow> None
                | Some (calls2, e2) \<Rightarrow>
                   (let (calls3, e3) = (if sparkleEnabled st \<and> sparkle (nextTime e2) < lookahead
                                        then ([Sparkle], scheduleSparkle (sparkleDraw d) e2)
                                        else ([], e2))
                    in Some (calls1 @ calls2 @ calls3, e3)))
      | _ \<Rightarrow> Some ([], e))"

text \<open>
  The states an engine goes through: construction, \<^verbatim>\<open>init\<close>, the per-frame \<^verbatim>\<open>tick\<close>
  (which stores the configuration and audio state and moves root and scale; what it may
  store is left open), the audio clock and context state moving on, a scheduler run, a
  release timer firing, and \<^verbatim>\<open>dispose\<close>.
\<close>

inductive reachable :: "Engine \<Rightarrow> bool" where
  fresh: "reachable new_Engine"
| initialise: "reachable e \<Longrightarrow> reachable (init c e)"
| frame: "reachable e \<Longrightarrow> masterGain_set e \<Longrightarrow>
          reachable (e\<lparr> config_set := True, audioState := Some st,
                        rootMidi := rootNote, currentScale := scaleDegrees \<rparr>)"
| clock: "reachable e \<Longrightarrow> ctx e = Some c \<Longrightarrow> reachable (e\<lparr> ctx := Some c' \<rparr>)"
| scheduled: "reachable e \<Longrightarrow> schedulerTick d e = Some (calls, e') \<Longrightarrow> reachable e'"
| released: "reachable e \<Longrightarrow> reachable (releaseVoice i e)"
| disposed: "reachable e \<Longrightarrow> reachable (dispose e)"

definition randomDraw :: "real \<Rightarrow> bool" where
  "randomDraw r \<longleftrightarrow> 0 \<le> r \<and> r < 1"

subsection \<open>A concrete engine\<close>

definition sample_audioState :: AudioState where
  "sample_audioState =
     \<lparr> musicDensity = 1 / 2, droneEnabled = True, melodyEnabled = True, sparkleEnabled = True \<rparr>"

definition sample_draws :: Draws where
  "sample_draws =
     \<lparr> melodyDraws = \<lparr> bucketDraw = 1 / 2, indexDraw = 1 / 2,
                       stealDraw0 = 0, stealDraw1 = 1 / 2, stealDraw2 = 9 / 10 \<rparr>,
       sparkleDraw = 1 / 2 \<rparr>"

definition sample_Engine :: Engine where
  "sample_Engine =
     (init \<lparr> currentTime = 0, suspended = False \<rparr> new_Engine)
       \<lparr> config_set := True, audioState := Some sample_audioState,
         rootMidi := 60, currentScale := pentatonic_minor \<rparr>"

subsection \<open>Auxiliary predicates\<close>

text \<open>Every random number of one scheduler run is in \<open>[0, 1)\<close>.\<close>

definition drawsInRange :: "Draws \<Rightarrow> bool" where
  "drawsInRange d \<longleftrightarrow>
     randomDraw (bucketDraw (melodyDraws d)) \<and> randomDraw (indexDraw (melodyDraws d)) \<and>
     randomDraw (stealDraw0 (melodyDraws d)) \<and> randomDraw (stealDraw1 (melodyDraws d)) \<and>
     randomDraw (stealDraw2 (melodyDraws d)) \<and> randomDraw (sparkleDraw d)"

text \<open>Two engine states agree on everything the scheduler's guards read.\<close>

definition sameControl :: "Engine \<Rightarrow> Engine \<Rightarrow> bool" where
  "sameControl e e' \<longleftrightarrow>
     ctx e' = ctx e \<and> audioState e' = audioState e \<and> config_set e' = config_set e \<and>
     masterGain_set e' = masterGain_set e \<and> noise_ready e' = noise_ready e \<and>
     length (voicePool e') = length (voicePool e)"

text \<open>
  What \<^verbatim>\<open>init\<close> and \<^verbatim>\<open>dispose\<close> maintain: a context only with a master gain, and six
  voices exactly when there is a master gain.
\<close>

definition poolInvariant :: "Engine \<Rightarrow> bool" where
  "poolInvariant e \<longleftrightarrow>
     (ctx e \<noteq> None \<longrightarrow> masterGain_set e) \<and>
     (if masterGain_set e then length (voicePool e) = 6 else voicePool e = [])"

text \<open>
  The same engine with only the melody layer enabled, after one scheduler run at clock 0,
  and after a second run at clock 4: each run schedules one note, which claims three
  voices.
\<close>

definition melody_only :: AudioState where
  "melody_only =
     \<lparr> musicDensity = 1 / 2, droneEnabled = False, melodyEnabled = True,
       sparkleEnabled = False \<rparr>"

definition sample_Engine_1 :: Engine where
  "sample_Engine_1 =
     snd (the (schedulerTick sample_draws (sample_Engine\<lparr> audioState := Some melody_only \<rparr>)))"

definition sample_Engine_2 :: Engine where
  "sample_Engine_2 =
     snd (the (schedulerTick sample_draws
                 (sample_Engine_1\<lparr> ctx := Some \<lparr> currentTime = 4, suspended = False \<rparr> \<rparr>)))"

text \<open>The busy flags of a pool after one claim: the first free flag, if any, is set.\<close>

definition claimFlags :: "bool list \<Rightarrow> bool list" where
  "claimFlags bs = (case findIndex Not bs of Some k \<Rightarrow> bs[k := True] | None \<Rightarrow> bs)"

section \<open>AudioManager: reactive mappings\<close>

text \<open>
  Source: \<^verbatim>\<open>src/unnamed/part_001\<close> (\<^verbatim>\<open>AudioManager._applyMapping\<close>) and the types of
  \<^verbatim>\<open>src/app/models/types.ts\<close>. The configuration object is a dictionary from field names
  to values, which are numbers, booleans or strings. An optional field of a mapping is an
  \<open>option\<close>; \<^verbatim>\<open>a ?? b\<close> is \<open>b\<close> when \<open>a\<close> is absent.
\<close>

datatype AudioBand = Bass | Mid | Treble | Beat

datatype AudioMappingMode = ModeAdd | ModeMultiply | ModeSet

datatype config_value = Num real | Bool bool | Str string

type_synonym SpiralConfigV2 = "string \<rightharpoonup> config_value"

record AudioMapping =
  mapping_id :: string
  band :: AudioBand
  parameter :: string
  intensity :: real
  mode :: AudioMappingMode
  mapping_min :: "real option"
  mapping_max :: "real option"

text \<open>\<open>None\<close> is the \<^verbatim>\<open>undefined\<close> returned when the base value is not a number.\<close>

definition applyMapping :: "AudioMapping \<Rightarrow> real \<Rightarrow> SpiralConfigV2 \<Rightarrow> real option" where
  "applyMapping mapping energy config =
     (case config (parameter mapping) of
        Some (Num base) \<Rightarrow>
          (case mode mapping of
             ModeAdd \<Rightarrow> Some (base + energy * intensity mapping * \<bar>base\<bar> * (1 / 2))
           | ModeMultiply \<Rightarrow> Some (base * (1 + energy * intensity mapping))
           | ModeSet \<Rightarrow>
               (let lo = (case mapping_min mapping of Some v \<Rightarrow> v | None \<Rightarrow> 0);
                    hi = (case mapping_max mapping of Some v \<Rightarrow> v | None \<Rightarrow> \<bar>base\<bar> * 2)
                in Some (lo + energy * (hi - lo))))
      | _ \<Rightarrow> None)"

definition sample_config :: SpiralConfigV2 where
  "sample_config =
     [''stepLength'' \<mapsto> Num 10, ''angleChange'' \<mapsto> Num (- 4), ''spiralType'' \<mapsto> Str ''rose'']"

definition sample_mapping :: AudioMapping where
  "sample_mapping =
     \<lparr> mapping_id = ''m1'', band = Bass, parameter = ''stepLength'', intensity = 1 / 2,
       mode = ModeMultiply, mapping_min = None, mapping_max = None \<rparr>"

section \<open>ReactiveEngine: beat detection\<close>

text \<open>
  Source: \<^verbatim>\<open>src/unnamed/part_000\<close> (second file, class \<^verbatim>\<open>ReactiveEngine\<close>).
  \<^verbatim>\<open>Date.now()\<close> is an argument, in integer milliseconds. The FFT snapshot that
  \<^verbatim>\<open>update\<close> reads from the analyser is an argument too, a list of bytes.
\<close>

definition BEAT_THRESHOLD :: real where
  "BEAT_THRESHOLD = 3 / 2"

definition BEAT_COOLDOWN_MS :: int where
  "BEAT_COOLDOWN_MS = 200"

definition ENERGY_HISTORY_LEN :: nat where
  "ENERGY_HISTORY_LEN = 60"

record ReactiveEngine =
  analyser_set :: bool
  frequencyData :: "nat list"
  energyHistory :: "real list"
  lastBeatTime :: int

definition new_ReactiveEngine :: ReactiveEngine where
  "new_ReactiveEngine =
     \<lparr> analyser_set = False, frequencyData = [], energyHistory = [], lastBeatTime = 0 \<rparr>"

text \<open>\<^verbatim>\<open>_sliceEnergy(start, end)\<close>, for \<open>end\<close> within the array, as all its callers have it.\<close>

definition sliceEnergy :: "nat \<Rightarrow> nat \<Rightarrow> ReactiveEngine \<Rightarrow> real" where
  "sliceEnergy start fin e =
     (if fin \<le> start \<or> length (frequencyData e) = 0 then 0
      else real (sum_list (take (fin - start) (drop start (frequencyData e))))
           / real ((fin - start) * 255))"

definition update :: "nat list \<Rightarrow> ReactiveEngine \<Rightarrow> ReactiveEngine" where
  "update snapshot e =
     (if \<not> analyser_set e then e
      else
        let e1 = e\<lparr> frequencyData := snapshot \<rparr>;
            energy = sliceEnergy 0 (length (frequencyData e1)) e1;
            history = energyHistory e1 @ [energy]
        in e1\<lparr> energyHistory := (if length history > ENERGY_HISTORY_LEN then tl history
                                  else history) \<rparr>)"

definition isBeat :: "int \<Rightarrow> ReactiveEngine \<Rightarrow> bool \<times> ReactiveEngine" where
  "isBeat now e =
     (if length (energyHistory e) < 10 then (False, e)
      else if now - lastBeatTime e < BEAT_COOLDOWN_MS then (False, e)
      else
        let current = energyHistory e ! (length (energyHistory e) - 1);
            avg = foldl (\<lambda>s v. s + v) 0 (butlast (energyHistory e))
                  / real (length (energyHistory e) - 1)
        in if avg > 2 / 100 \<and> current > avg * BEAT_THRESHOLD
           then (True, e\<lparr> lastBeatTime := now \<rparr>)
           else (False, e))"

text \<open>The mean of all samples of the history other than the latest.\<close>

definition meanOfOthers :: "real list \<Rightarrow> real" where
  "meanOfOthers h = sum_list (butlast h) / real (length h - 1)"

definition sample_ReactiveEngine :: ReactiveEngine where
  "sample_ReactiveEngine =
     \<lparr> analyser_set = True, frequencyData = [],
       energyHistory = [1 / 10, 1 / 10, 1 / 10, 1 / 10, 1 / 10, 1 / 10, 1 / 10, 1 / 10, 1 / 10,
                        1 / 10, 1 / 2],
       lastBeatTime = 1000 \<rparr>"

section \<open>Properties of the segment buffer\<close>

subsection \<open>Writing one slot, compacting\<close>

lemma take6_updates:
  assumes "6 \<le> length ys"
  shows "take 6 (ys[0 := a, Suc 0 := b, 2 := c, 3 := d, 4 := e, 5 := f]) = [a, b, c, d, e, f]"
proof -
  have len: "0 < length ys" "Suc 0 < length ys" "2 < length ys" "3 < length ys"
    "4 < length ys" "5 < length ys"
    using assms by auto
  show ?thesis
  proof (rule nth_equalityI)
    show "length (take 6 (ys[0 := a, Suc 0 := b, 2 := c, 3 := d, 4 := e, 5 := f])) = length [a, b, c, d, e, f]"
      using assms by simp
  next
    fix i assume "i < length (take 6 (ys[0 := a, Suc 0 := b, 2 := c, 3 := d, 4 := e, 5 := f]))"
    then have "i < 6" by simp
    then consider "i = 0" | "i = 1" | "i = 2" | "i = 3" | "i = 4" | "i = 5" by linarith
    then show "take 6 (ys[0 := a, Suc 0 := b, 2 := c, 3 := d, 4 := e, 5 := f]) ! i = [a, b, c, d, e, f] ! i"
      using len by cases (simp_all add: nth_list_update)
  qed
qed

lemma slot_written:
  assumes "si + 6 \<le> length xs"
  shows "take 6 (drop si (xs[si := a, si + 1 := b, si + 2 := c, si + 3 := d, si + 4 := e, si + 5 := f]))
         = [a, b, c, d, e, f]"
proof -
  have "drop si (xs[si := a, si + 1 := b, si + 2 := c, si + 3 := d, si + 4 := e, si + 5 := f])
        = (drop si xs)[0 := a, Suc 0 := b, 2 := c, 3 := d, 4 := e, 5 := f]"
    by (simp add: drop_update_swap)
  moreover have "6 \<le> length (drop si xs)" using assms by simp
  ultimately show ?thesis by (simp only: take6_updates)
qed

lemma slot_below_kept:
  assumes "k + 6 \<le> si"
  shows "take 6 (drop k (xs[si := a, si + 1 := b, si + 2 := c, si + 3 := d, si + 4 := e, si + 5 := f]))
         = take 6 (drop k xs)"
  using assms by (simp add: drop_update_swap)

lemma copyWithin_front:
  assumes "start \<le> fin" "fin \<le> length xs"
  shows "copyWithin xs 0 start fin = take (fin - start) (drop start xs) @ drop (fin - start) xs"
proof -
  have "min start (length xs) = start" "min fin (length xs) = fin"
    "min (fin - start) (length xs) = fin - start"
    using assms by simp_all
  then show ?thesis by (simp add: copyWithin_def Let_def)
qed

lemma length_copyWithin: "length (copyWithin xs target start fin) = length xs"
  by (auto simp: copyWithin_def Let_def min_def)

lemma slot_after_copy:
  assumes "start \<le> fin" "fin \<le> length xs" "k + 6 \<le> fin - start"
  shows "take 6 (drop k (copyWithin xs 0 start fin)) = take 6 (drop (start + k) xs)"
proof -
  have "take 6 (drop k (copyWithin xs 0 start fin))
        = take 6 (drop k (take (fin - start) (drop start xs)))"
    using assms by (simp add: copyWithin_front)
  also have "\<dots> = take 6 (take (fin - start - k) (drop k (drop start xs)))"
    by (simp add: drop_take)
  also have "\<dots> = take 6 (drop (start + k) xs)"
    using assms by (simp add: min_def add.commute)
  finally show ?thesis .
qed

lemma keep_offset:
  "MAX_SEGMENTS div 2 < MAX_SEGMENTS"
  "MAX_SEGMENTS - MAX_SEGMENTS div 2 + MAX_SEGMENTS div 2 = MAX_SEGMENTS"
  by (simp_all add: MAX_SEGMENTS_def)

lemma segmentCount_dropOldest: "segmentCount (dropOldest g) = MAX_SEGMENTS div 2"
  by (simp add: dropOldest_def Let_def)

lemma geometry_wf_dropOldest: "geometry_wf g \<Longrightarrow> geometry_wf (dropOldest g)"
  by (simp add: geometry_wf_def dropOldest_def Let_def length_copyWithin)

lemma segmentAt_dropOldest:
  assumes "geometry_wf g" "segmentCount g = MAX_SEGMENTS" "i < MAX_SEGMENTS div 2"
  shows "segmentAt (dropOldest g) i = segmentAt g (MAX_SEGMENTS - MAX_SEGMENTS div 2 + i)"
proof -
  let ?off = "MAX_SEGMENTS - MAX_SEGMENTS div 2"
  have room: "i * 6 + 6 \<le> MAX_SEGMENTS * 6 - ?off * 6"
    using assms(3) keep_offset(2) by linarith
  have le: "?off * 6 \<le> MAX_SEGMENTS * 6" by simp
  have pos: "take 6 (drop (i * 6) (copyWithin (segments g) 0 (?off * 6) (MAX_SEGMENTS * 6)))
             = take 6 (drop (?off * 6 + i * 6) (segments g))"
    using assms(1) room le by (intro slot_after_copy) (simp_all add: geometry_wf_def)
  have col: "take 6 (drop (i * 6) (copyWithin (rgbColors g) 0 (?off * 6) (MAX_SEGMENTS * 6)))
             = take 6 (drop (?off * 6 + i * 6) (rgbColors g))"
    using assms(1) room le by (intro slot_after_copy) (simp_all add: geometry_wf_def)
  have idx: "(?off + i) * 6 = ?off * 6 + i * 6"
    by (simp only: add_mult_distrib)
  have "segments (dropOldest g) = copyWithin (segments g) 0 (?off * 6) (MAX_SEGMENTS * 6)"
    "rgbColors (dropOldest g) = copyWithin (rgbColors g) 0 (?off * 6) (MAX_SEGMENTS * 6)"
    using assms(2) by (simp_all add: dropOldest_def Let_def)
  then show ?thesis
    unfolding segmentAt_def by (simp only: pos col idx)
qed

lemma storedSegments_dropOldest:
  assumes "geometry_wf g" "segmentCount g = MAX_SEGMENTS"
  shows "storedSegments (dropOldest g)
         = drop (MAX_SEGMENTS - MAX_SEGMENTS div 2) (storedSegments g)"
proof -
  let ?keep = "MAX_SEGMENTS div 2"
  let ?off = "MAX_SEGMENTS - MAX_SEGMENTS div 2"
  have "storedSegments (dropOldest g) = map (segmentAt (dropOldest g)) [0..<?keep]"
    by (simp add: storedSegments_def segmentCount_dropOldest)
  also have "\<dots> = map (\<lambda>i. segmentAt g (?off + i)) [0..<?keep]"
    using assms by (simp add: segmentAt_dropOldest)
  also have "\<dots> = map (segmentAt g) (map (\<lambda>i. i + ?off) [0..<?keep])"
    by (simp add: comp_def add.commute)
  also have "\<dots> = map (segmentAt g) [?off..<?keep + ?off]"
    by (simp only: map_add_upt)
  also have "\<dots> = map (segmentAt g) (drop ?off [0..<MAX_SEGMENTS])"
    using keep_offset(2) by (simp add: add.commute)
  also have "\<dots> = drop ?off (storedSegments g)"
    using assms(2) by (simp add: storedSegments_def drop_map)
  finally show ?thesis .
qed

lemma appendArgs_when_full:
  assumes "MAX_SEGMENTS \<le> segmentCount g"
  shows "appendArgs g s = appendArgs (dropOldest g) s"
proof -
  have "\<not> MAX_SEGMENTS \<le> segmentCount (dropOldest g)"
    using keep_offset(1) by (simp add: segmentCount_dropOldest)
  moreover obtain x1 y1 x2 y2 r gr b a where "s = (x1, y1, x2, y2, r, gr, b, a)"
    by (cases s) auto
  ultimately show ?thesis
    using assms by (simp add: appendSegment_def)
qed

lemma segmentCount_appendArgs:
  "segmentCount (appendArgs g s)
   = (if MAX_SEGMENTS \<le> segmentCount g then MAX_SEGMENTS div 2 else segmentCount g) + 1"
proof -
  obtain x1 y1 x2 y2 r gr b a where "s = (x1, y1, x2, y2, r, gr, b, a)"
    by (cases s) auto
  then show ?thesis
    by (simp add: appendSegment_def Let_def segmentCount_dropOldest)
qed

lemma geometry_wf_appendArgs:
  assumes "geometry_wf g"
  shows "geometry_wf (appendArgs g s)"
proof -
  obtain x1 y1 x2 y2 r gr b a where "s = (x1, y1, x2, y2, r, gr, b, a)"
    by (cases s) auto
  then have "length (segments (appendArgs g s)) = MAX_SEGMENTS * 6"
    "length (rgbColors (appendArgs g s)) = MAX_SEGMENTS * 6"
    using assms geometry_wf_dropOldest [OF assms]
    by (simp_all add: appendSegment_def Let_def geometry_wf_def)
  moreover have "segmentCount (appendArgs g s) \<le> MAX_SEGMENTS"
    using assms keep_offset(1) by (simp add: segmentCount_appendArgs geometry_wf_def)
  ultimately show ?thesis by (simp add: geometry_wf_def)
qed

lemma storedSegments_append_room:
  assumes "geometry_wf g" "segmentCount g < MAX_SEGMENTS"
  shows "storedSegments (appendArgs g s) = storedSegments g @ [stored_form s]"
proof -
  obtain x1 y1 x2 y2 r gr b a where s: "s = (x1, y1, x2, y2, r, gr, b, a)"
    by (cases s) auto
  let ?n = "segmentCount g"
  let ?g' = "appendArgs g s"
  have room: "?n * 6 + 6 \<le> length (segments g)" "?n * 6 + 6 \<le> length (rgbColors g)"
    using assms by (simp_all add: geometry_wf_def)
  have segs: "segments ?g' = (segments g)[?n * 6 := x1, ?n * 6 + 1 := y1, ?n * 6 + 2 := 0,
                 ?n * 6 + 3 := x2, ?n * 6 + 4 := y2, ?n * 6 + 5 := 0]"
    and cols: "rgbColors ?g' = (rgbColors g)[?n * 6 := r, ?n * 6 + 1 := gr, ?n * 6 + 2 := b,
                 ?n * 6 + 3 := r, ?n * 6 + 4 := gr, ?n * 6 + 5 := b]"
    and cnt: "segmentCount ?g' = ?n + 1"
    using assms(2) by (simp_all add: s appendSegment_def Let_def)
  have new: "segmentAt ?g' ?n = stored_form s"
    unfolding segmentAt_def segs cols
    using slot_written [OF room(1)] slot_written [OF room(2)] by (simp add: s)
  have old: "segmentAt ?g' i = segmentAt g i" if "i < ?n" for i
  proof -
    have "i * 6 + 6 \<le> ?n * 6" using that by simp
    then show ?thesis
      unfolding segmentAt_def segs cols by (simp only: slot_below_kept)
  qed
  show ?thesis
    using new old by (simp add: storedSegments_def cnt)
qed

lemma appendAll_snoc: "appendAll g (xs @ [x]) = appendArgs (appendAll g xs) x"
  by (simp add: appendAll_def)

lemma geometry_wf_new: "geometry_wf new_SpiralGeometry"
  by (simp add: geometry_wf_def new_SpiralGeometry_def)

lemma storedSegments_append_full:
  assumes "geometry_wf g" "segmentCount g = MAX_SEGMENTS"
  shows "storedSegments (appendArgs g s)
         = drop (MAX_SEGMENTS - MAX_SEGMENTS div 2) (storedSegments g) @ [stored_form s]"
proof -
  have "storedSegments (appendArgs g s) = storedSegments (appendArgs (dropOldest g) s)"
    using assms(2) by (simp add: appendArgs_when_full)
  also have "\<dots> = storedSegments (dropOldest g) @ [stored_form s]"
    using assms(1) keep_offset(1)
    by (intro storedSegments_append_room geometry_wf_dropOldest)
       (simp_all add: segmentCount_dropOldest)
  finally show ?thesis
    using assms by (simp add: storedSegments_dropOldest)
qed

lemma most_recent_snoc:
  assumes "n \<le> length ys"
  shows "most_recent n ys @ [y] = most_recent (Suc n) (ys @ [y])"
  using assms by (simp add: most_recent_def Suc_diff_le)

lemma drop_most_recent:
  assumes "k \<le> n" "n \<le> length ys"
  shows "drop k (most_recent n ys) = most_recent (n - k) ys"
proof -
  have "k + (length ys - n) = length ys - (n - k)"
    using assms by arith
  then show ?thesis by (simp add: most_recent_def)
qed

lemma appendAll_history:
  "geometry_wf (appendAll new_SpiralGeometry xs) \<and>
   segmentCount (appendAll new_SpiralGeometry xs) \<le> length xs \<and>
   storedSegments (appendAll new_SpiralGeometry xs)
     = most_recent (segmentCount (appendAll new_SpiralGeometry xs)) (map stored_form xs)"
proof (induction xs rule: rev_induct)
  case Nil
  have "segmentCount new_SpiralGeometry = 0"
    by (simp add: new_SpiralGeometry_def)
  then show ?case
    using geometry_wf_new by (simp add: appendAll_def storedSegments_def most_recent_def)
next
  case (snoc x xs)
  let ?g = "appendAll new_SpiralGeometry xs"
  let ?ys = "map stored_form xs"
  from snoc have wf: "geometry_wf ?g" and le: "segmentCount ?g \<le> length xs"
    and hist: "storedSegments ?g = most_recent (segmentCount ?g) ?ys"
    by simp_all
  have wf': "geometry_wf (appendArgs ?g x)"
    using wf by (rule geometry_wf_appendArgs)
  show ?case
  proof (cases "segmentCount ?g < MAX_SEGMENTS")
    case True
    have "storedSegments (appendArgs ?g x) = most_recent (segmentCount ?g) ?ys @ [stored_form x]"
      using wf True hist by (simp add: storedSegments_append_room)
    also have "\<dots> = most_recent (Suc (segmentCount ?g)) (?ys @ [stored_form x])"
      using le by (intro most_recent_snoc) simp
    finally show ?thesis
      using wf' le True by (simp add: appendAll_snoc segmentCount_appendArgs)
  next
    case False
    with wf have full: "segmentCount ?g = MAX_SEGMENTS"
      by (simp add: geometry_wf_def)
    have "storedSegments (appendArgs ?g x)
          = drop (MAX_SEGMENTS - MAX_SEGMENTS div 2) (most_recent MAX_SEGMENTS ?ys) @ [stored_form x]"
      using wf full hist by (simp add: storedSegments_append_full)
    also have "\<dots> = most_recent (MAX_SEGMENTS div 2) ?ys @ [stored_form x]"
      using le full by (simp add: drop_most_recent)
    also have "\<dots> = most_recent (Suc (MAX_SEGMENTS div 2)) (?ys @ [stored_form x])"
      using le full by (intro most_recent_snoc) simp
    finally show ?thesis
      using wf' le full by (simp add: appendAll_snoc segmentCount_appendArgs)
  qed
qed

lemma segmentCount_appendAll_small:
  "length xs \<le> MAX_SEGMENTS \<Longrightarrow> segmentCount (appendAll new_SpiralGeometry xs) = length xs"
proof (induction xs rule: rev_induct)
  case Nil
  show ?case by (simp add: appendAll_def new_SpiralGeometry_def)
next
  case (snoc x xs)
  then show ?case by (simp add: appendAll_snoc segmentCount_appendArgs)
qed

subsection \<open>Capacity and eviction\<close>

text \<open>
  Claim C1. Start from a fresh geometry and append any sequence \<open>xs\<close> of segments. The
  stored count never exceeds \<open>MAX_SEGMENTS\<close>. If the next append finds the buffer full,
  then after it the buffer holds exactly the \<open>MAX_SEGMENTS div 2\<close> most recently appended
  segments of \<open>xs\<close>, in insertion order, followed by the new segment.
\<close>

theorem appendSegment_capacity_and_eviction:
  "segmentCount (appendAll new_SpiralGeometry xs) \<le> MAX_SEGMENTS \<and>
   (MAX_SEGMENTS \<le> segmentCount (appendAll new_SpiralGeometry xs) \<longrightarrow>
      storedSegments (appendArgs (appendAll new_SpiralGeometry xs) s)
        = most_recent (MAX_SEGMENTS div 2) (map stored_form xs) @ [stored_form s] \<and>
      length (most_recent (MAX_SEGMENTS div 2) (map stored_form xs)) = MAX_SEGMENTS div 2)"
proof -
  let ?g = "appendAll new_SpiralGeometry xs"
  have wf: "geometry_wf ?g" and le: "segmentCount ?g \<le> length xs"
    and hist: "storedSegments ?g = most_recent (segmentCount ?g) (map stored_form xs)"
    using appendAll_history [of xs] by simp_all
  have cap: "segmentCount ?g \<le> MAX_SEGMENTS"
    using wf by (simp add: geometry_wf_def)
  moreover have "storedSegments (appendArgs ?g s)
        = most_recent (MAX_SEGMENTS div 2) (map stored_form xs) @ [stored_form s] \<and>
      length (most_recent (MAX_SEGMENTS div 2) (map stored_form xs)) = MAX_SEGMENTS div 2"
    if "MAX_SEGMENTS \<le> segmentCount ?g"
  proof -
    from that cap have full: "segmentCount ?g = MAX_SEGMENTS" by simp
    have "storedSegments (appendArgs ?g s)
          = drop (MAX_SEGMENTS - MAX_SEGMENTS div 2) (most_recent MAX_SEGMENTS (map stored_form xs))
            @ [stored_form s]"
      using wf full hist by (simp add: storedSegments_append_full)
    also have "\<dots> = most_recent (MAX_SEGMENTS div 2) (map stored_form xs) @ [stored_form s]"
      using le full by (simp add: drop_most_recent)
    finally have "storedSegments (appendArgs ?g s)
          = most_recent (MAX_SEGMENTS div 2) (map stored_form xs) @ [stored_form s]" .
    moreover have "length (most_recent (MAX_SEGMENTS div 2) (map stored_form xs)) = MAX_SEGMENTS div 2"
      using le full keep_offset(1) by (simp add: most_recent_def)
    ultimately show ?thesis by simp
  qed
  ultimately show ?thesis by blast
qed

theorem appendSegment_capacity_and_eviction_witness:
  "MAX_SEGMENTS \<le> segmentCount (appendAll new_SpiralGeometry
       (replicate MAX_SEGMENTS (0, 0, 3, 4, 1, 1 / 2, 0, 1))) \<and>
   storedSegments (appendArgs (appendAll new_SpiralGeometry
       (replicate MAX_SEGMENTS (0, 0, 3, 4, 1, 1 / 2, 0, 1))) (3, 4, 5, 6, 0, 1, 0, 1))
     = most_recent (MAX_SEGMENTS div 2)
         (map stored_form (replicate MAX_SEGMENTS (0, 0, 3, 4, 1, 1 / 2, 0, 1)))
       @ [stored_form (3, 4, 5, 6, 0, 1, 0, 1)]"
proof -
  have full: "MAX_SEGMENTS \<le> segmentCount (appendAll new_SpiralGeometry
       (replicate MAX_SEGMENTS (0, 0, 3, 4, 1, 1 / 2, 0, 1)))"
    by (simp add: segmentCount_appendAll_small)
  with appendSegment_capacity_and_eviction
         [of "replicate MAX_SEGMENTS (0, 0, 3, 4, 1, 1 / 2, 0, 1)" "(3, 4, 5, 6, 0, 1, 0, 1)"]
  show ?thesis by blast
qed

section \<open>Properties of the renderer\<close>

subsection \<open>Resizing\<close>

text \<open>
  Claim C2, as stated, fails: \<^verbatim>\<open>resize\<close> has one guard only, equality with the current
  size. On the 800 by 600 sample renderer, \<^verbatim>\<open>resize(0, 600)\<close> sets the width to 0 and
  reallocates the accumulation target at width 0.
\<close>

theorem resize_zero_width_counterexample:
  "width (resize 0 600 sample_SpiralRenderer) = 0 \<and>
   width sample_SpiralRenderer = 800 \<and>
   rt_width (accumTarget (resize 0 600 sample_SpiralRenderer)) = 0 \<and>
   rt_width (accumTarget sample_SpiralRenderer) = 1600 \<and>
   resize 0 600 sample_SpiralRenderer \<noteq> sample_SpiralRenderer"
proof -
  have w: "width (resize 0 600 sample_SpiralRenderer) = 0"
    by (simp add: resize_def sample_SpiralRenderer_def Let_def)
  have a: "rt_width (accumTarget (resize 0 600 sample_SpiralRenderer)) = 0"
    by (simp add: resize_def sample_SpiralRenderer_def sample_accum_def sample_renderer_def
        renderer_setSize_def rt_setSize_def js_round_def Let_def)
  have w0: "width sample_SpiralRenderer = 800"
    and a0: "rt_width (accumTarget sample_SpiralRenderer) = 1600"
    by (simp_all add: sample_SpiralRenderer_def sample_accum_def)
  from w w0 have "resize 0 600 sample_SpiralRenderer \<noteq> sample_SpiralRenderer"
    by auto
  with w a w0 a0 show ?thesis by simp
qed

lemma resize_changed:
  assumes "w \<noteq> width s \<or> h \<noteq> height s"
  shows "width (resize w h s) = w" "height (resize w h s) = h"
    "css_size (renderer (resize w h s)) = (w, h)"
    "camera (resize w h s)
       = (camera s)\<lparr> cam_left := - (w / 2), cam_right := w / 2,
                     cam_top := h / 2, cam_bottom := - (h / 2) \<rparr>"
    "accumTarget (resize w h s)
       = rt_setSize (js_round (w * pixelRatio (renderer s)))
           (js_round (h * pixelRatio (renderer s))) (accumTarget s)"
    "geometry (resize w h s) = map_option (setResolution w h) (geometry s)"
  using assms by (auto simp: resize_def Let_def renderer_setSize_def)

lemma resize_unchanged_iff: "resize w h s = s \<longleftrightarrow> w = width s \<and> h = height s"
proof
  assume same: "resize w h s = s"
  show "w = width s \<and> h = height s"
  proof (rule ccontr)
    assume "\<not> (w = width s \<and> h = height s)"
    then have "w \<noteq> width s \<or> h \<noteq> height s" by blast
    from resize_changed(1,2) [OF this] same show False
      using \<open>\<not> (w = width s \<and> h = height s)\<close> by simp
  qed
next
  assume "w = width s \<and> h = height s"
  then show "resize w h s = s" by (simp add: resize_def)
qed

text \<open>
  Claim C2, amended. \<^verbatim>\<open>resize\<close> leaves the renderer as it is if and only if it is asked
  for the size the renderer already has. For any other width and height, zero and
  negative ones included, it takes effect: it stores them as the new size, sets the
  size of the WebGL renderer and the camera bounds from them, resizes the accumulation
  target to the rounded physical size and sets the geometry's resolution. The skip for a
  zero or negative dimension is made by the caller: \<^verbatim>\<open>handleResize\<close> calls \<^verbatim>\<open>resize\<close>
  when both dimensions are positive, and otherwise leaves the renderer as it is.
\<close>

theorem resize_skips:
  "(resize w h s = s \<longleftrightarrow> w = width s \<and> h = height s) \<and>
   (w = width s \<and> h = height s \<longrightarrow> resize w h s = s) \<and>
   (w \<noteq> width s \<or> h \<noteq> height s \<longrightarrow>
      resize w h s \<noteq> s \<and>
      width (resize w h s) = w \<and> height (resize w h s) = h \<and>
      css_size (renderer (resize w h s)) = (w, h) \<and>
      camera (resize w h s)
        = (camera s)\<lparr> cam_left := - (w / 2), cam_right := w / 2,
                      cam_top := h / 2, cam_bottom := - (h / 2) \<rparr> \<and>
      accumTarget (resize w h s)
        = rt_setSize (js_round (w * pixelRatio (renderer s)))
            (js_round (h * pixelRatio (renderer s))) (accumTarget s) \<and>
      geometry (resize w h s) = map_option (setResolution w h) (geometry s)) \<and>
   (w \<le> 0 \<or> h \<le> 0 \<longrightarrow> handleResize (Some (w, h)) (Some s) = Some s) \<and>
   (0 < w \<and> 0 < h \<longrightarrow> handleResize (Some (w, h)) (Some s) = Some (resize w h s))"
proof -
  have a: "resize w h s = s \<longleftrightarrow> w = width s \<and> h = height s"
    by (rule resize_unchanged_iff)
  have b: "resize w h s \<noteq> s \<and>
      width (resize w h s) = w \<and> height (resize w h s) = h \<and>
      css_size (renderer (resize w h s)) = (w, h) \<and>
      camera (resize w h s)
        = (camera s)\<lparr> cam_left := - (w / 2), cam_right := w / 2,
                      cam_top := h / 2, cam_bottom := - (h / 2) \<rparr> \<and>
      accumTarget (resize w h s)
        = rt_setSize (js_round (w * pixelRatio (renderer s)))
            (js_round (h * pixelRatio (renderer s))) (accumTarget s) \<and>
      geometry (resize w h s) = map_option (setResolution w h) (geometry s)"
    if "w \<noteq> width s \<or> h \<noteq> height s"
    using resize_changed [OF that] a that by blast
  have c: "w \<le> 0 \<or> h \<le> 0 \<longrightarrow> handleResize (Some (w, h)) (Some s) = Some s"
    by (auto simp: handleResize_def)
  have d: "0 < w \<and> 0 < h \<longrightarrow> handleResize (Some (w, h)) (Some s) = Some (resize w h s)"
    by (auto simp: handleResize_def)
  from a b c d show ?thesis by blast
qed

theorem resize_skips_witness:
  "((0::real) \<le> 0 \<or> (600::real) \<le> 0) \<and>
   handleResize (Some (0, 600)) (Some sample_SpiralRenderer) = Some sample_SpiralRenderer \<and>
   width sample_SpiralRenderer = 800 \<and> height sample_SpiralRenderer = 600 \<and>
   resize 800 600 sample_SpiralRenderer = sample_SpiralRenderer \<and>
   resize 0 600 sample_SpiralRenderer \<noteq> sample_SpiralRenderer \<and>
   width (resize 0 600 sample_SpiralRenderer) = 0 \<and>
   resize (- 5) (- 5) sample_SpiralRenderer \<noteq> sample_SpiralRenderer \<and>
   width (resize (- 5) (- 5) sample_SpiralRenderer) = - 5 \<and>
   handleResize (Some (- 5, - 5)) (Some sample_SpiralRenderer) = Some sample_SpiralRenderer \<and>
   handleResize (Some (1024, 768)) (Some sample_SpiralRenderer)
     = Some (resize 1024 768 sample_SpiralRenderer) \<and>
   width (resize 1024 768 sample_SpiralRenderer) = 1024"
proof -
  have f: "width sample_SpiralRenderer = 800" "height sample_SpiralRenderer = 600"
    by (simp_all add: sample_SpiralRenderer_def)
  show ?thesis
    using f resize_skips [of 0 600 sample_SpiralRenderer]
          resize_skips [of 800 600 sample_SpiralRenderer]
          resize_skips [of "- 5" "- 5" sample_SpiralRenderer]
          resize_skips [of 1024 768 sample_SpiralRenderer]
    by simp
qed

subsection \<open>Clearing\<close>

lemma clearTrail_initialised:
  assumes "initialised p"
  shows "clearTrail (r, p) =
           (r\<lparr> autoClear := True \<rparr>,
            p\<lparr> trailTargetA := (trailTargetA p)\<lparr> pixels := Cleared (clearColor r) (clearAlpha r) \<rparr>,
               trailTargetB := (trailTargetB p)\<lparr> pixels := Cleared (clearColor r) (clearAlpha r) \<rparr>,
               trailWriteIdx := 0 \<rparr>)"
  using assms by (simp add: clearTrail_def Let_def)

lemma clearTrail_uninitialised: "\<not> initialised p \<Longrightarrow> clearTrail (r, p) = (r, p)"
  by (simp add: clearTrail_def Let_def)

lemma reset_reset: "reset (reset g) = reset g"
  by (simp add: reset_def)

lemma clear_geometry: "geometry (clear s) = map_option reset (geometry s)"
  by (simp add: clear_def Let_def split: option.splits prod.splits)

lemma clear_accum: "accumTarget (clear s) = (accumTarget s)\<lparr> pixels := Cleared 0 1 \<rparr>"
  by (simp add: clear_def Let_def split: option.splits prod.splits)

lemma clear_twice: "clear (clear s) = clear s"
proof (cases "postProcessor s")
  case None
  then show ?thesis
    by (simp add: clear_def Let_def option.map_comp comp_def reset_reset)
next
  case (Some p)
  show ?thesis
  proof (cases "initialised p")
    case True
    with Some show ?thesis
      by (simp add: clear_def Let_def clearTrail_initialised option.map_comp comp_def reset_reset)
  next
    case False
    with Some show ?thesis
      by (simp add: clear_def Let_def clearTrail_uninitialised option.map_comp comp_def
          reset_reset)
  qed
qed

text \<open>
  Claim C7. Calling \<^verbatim>\<open>clear\<close> twice gives the state that calling it once gives. After
  a \<^verbatim>\<open>clear\<close> the geometry (when there is one) has segment count 0, the accumulation
  target holds the clear colour \<open>0x000000\<close> (alpha 1) and nothing else, and an initialised
  post-processor has both trail buffers cleared to that colour and its write index at 0.
\<close>

theorem clear_idempotent:
  "clear (clear s) = clear s \<and>
   map_option segmentCount (geometry (clear s)) = map_option (\<lambda>g. 0) (geometry s) \<and>
   pixels (accumTarget (clear s)) = Cleared 0 1 \<and>
   (\<forall>p. postProcessor s = Some p \<and> initialised p \<longrightarrow>
      (\<exists>p'. postProcessor (clear s) = Some p' \<and>
            pixels (trailTargetA p') = Cleared 0 1 \<and>
            pixels (trailTargetB p') = Cleared 0 1 \<and>
            trailWriteIdx p' = 0))"
proof -
  have "map_option segmentCount (geometry (clear s)) = map_option (\<lambda>g. 0) (geometry s)"
    by (simp add: clear_geometry option.map_comp comp_def reset_def)
  moreover have "pixels (accumTarget (clear s)) = Cleared 0 1"
    by (simp add: clear_accum)
  moreover have "\<exists>p'. postProcessor (clear s) = Some p' \<and>
            pixels (trailTargetA p') = Cleared 0 1 \<and>
            pixels (trailTargetB p') = Cleared 0 1 \<and>
            trailWriteIdx p' = 0"
    if "postProcessor s = Some p \<and> initialised p" for p
    using that by (simp add: clear_def Let_def clearTrail_initialised)
  ultimately show ?thesis
    using clear_twice [of s] by blast
qed

theorem clear_idempotent_witness:
  "postProcessor sample_SpiralRenderer = Some sample_postProcessor \<and>
   initialised sample_postProcessor \<and>
   trailWriteIdx sample_postProcessor = 1 \<and>
   pixels (trailTargetA sample_postProcessor) \<noteq> Cleared 0 1 \<and>
   (\<exists>p'. postProcessor (clear sample_SpiralRenderer) = Some p' \<and>
         pixels (trailTargetA p') = Cleared 0 1 \<and>
         pixels (trailTargetB p') = Cleared 0 1 \<and>
         trailWriteIdx p' = 0) \<and>
   clear (clear sample_SpiralRenderer) = clear sample_SpiralRenderer"
proof -
  have h: "postProcessor sample_SpiralRenderer = Some sample_postProcessor"
    "initialised sample_postProcessor"
    "trailWriteIdx sample_postProcessor = 1"
    "pixels (trailTargetA sample_postProcessor) \<noteq> Cleared 0 1"
    by (simp_all add: sample_SpiralRenderer_def sample_postProcessor_def pp_init_def Let_def)
  with clear_idempotent [of sample_SpiralRenderer] show ?thesis by blast
qed

subsection \<open>Rendering without a motion trail\<close>

text \<open>
  Claim C10. When \<^verbatim>\<open>settings.motionTrail\<close> is 0, \<^verbatim>\<open>PostProcessor.render\<close> leaves the
  trail state as it was: the write index, both trail buffers and the uniforms of the trail
  material are unchanged; and (once initialised) the texture given to the copy quad that
  seeds the effect passes is the accumulation target's, so the read buffer receives the
  accumulation image.
\<close>

theorem render_without_trail:
  assumes "motionTrail settings = 0"
  shows "trailWriteIdx (snd (pp_render settings accum (r, p))) = trailWriteIdx p \<and>
         trailTargetA (snd (pp_render settings accum (r, p))) = trailTargetA p \<and>
         trailTargetB (snd (pp_render settings accum (r, p))) = trailTargetB p \<and>
         tPrevious (snd (pp_render settings accum (r, p))) = tPrevious p \<and>
         mixFactor (snd (pp_render settings accum (r, p))) = mixFactor p \<and>
         (initialised p \<longrightarrow>
            copyMat_map (snd (pp_render settings accum (r, p))) = Some AccumTexture \<and>
            readBuffer (snd (pp_render settings accum (r, p))) = pixels accum)"
  using assms
  by (simp add: pp_render_def Let_def updatePassParams_def texture_image_def)

theorem render_without_trail_witness:
  "motionTrail sample_settings = 0 \<and> initialised sample_postProcessor \<and>
   trailWriteIdx (snd (pp_render sample_settings sample_accum
                         (sample_renderer, sample_postProcessor))) = 1 \<and>
   trailTargetA (snd (pp_render sample_settings sample_accum
                        (sample_renderer, sample_postProcessor)))
     = trailTargetA sample_postProcessor \<and>
   copyMat_map (snd (pp_render sample_settings sample_accum
                       (sample_renderer, sample_postProcessor))) = Some AccumTexture"
proof -
  have h: "motionTrail sample_settings = 0" "initialised sample_postProcessor"
    "trailWriteIdx sample_postProcessor = 1"
    by (simp_all add: sample_settings_def sample_postProcessor_def pp_init_def Let_def)
  with render_without_trail [OF h(1), of sample_accum sample_renderer sample_postProcessor]
  show ?thesis by simp
qed

section \<open>Properties of the music engine\<close>

subsection \<open>Snapping to a simple ratio\<close>

lemma snapLoop_best:
  assumes "snapLoop c rs (b0, bd0) = (b, bd)"
    and "case bd0 of
           None \<Rightarrow> seen = []
         | Some d0 \<Rightarrow> d0 = relativeDistance c b0 \<and> b0 \<in> set seen \<and>
                      (\<forall>r\<in>set seen. d0 \<le> relativeDistance c r)"
  shows "case bd of
           None \<Rightarrow> seen @ rs = []
         | Some d \<Rightarrow> d = relativeDistance c b \<and> b \<in> set (seen @ rs) \<and>
                     (\<forall>r\<in>set (seen @ rs). d \<le> relativeDistance c r)"
  using assms
proof (induction rs arbitrary: b0 bd0 seen)
  case Nil
  then show ?case by (auto split: option.splits)
next
  case (Cons r rs)
  let ?dist = "relativeDistance c r"
  have step: "snapLoop c rs (r, Some ?dist) = (b, bd)" if "bd0 = None \<or> (\<exists>d0. bd0 = Some d0 \<and> ?dist < d0)"
    using that Cons.prems(1) by (auto simp: relativeDistance_def Let_def)
  have stay: "snapLoop c rs (b0, bd0) = (b, bd)" if "bd0 = Some d0" "\<not> ?dist < d0" for d0
    using that Cons.prems(1) by (auto simp: relativeDistance_def Let_def)
  show ?case
  proof (cases "bd0 = None \<or> (\<exists>d0. bd0 = Some d0 \<and> ?dist < d0)")
    case True
    have "case Some ?dist of
            None \<Rightarrow> seen @ [r] = []
          | Some d0 \<Rightarrow> d0 = relativeDistance c r \<and> r \<in> set (seen @ [r]) \<and>
                       (\<forall>x\<in>set (seen @ [r]). d0 \<le> relativeDistance c x)"
      using True Cons.prems(2) by (cases bd0) auto
    from Cons.IH [OF step [OF True] this] show ?thesis
      by (auto split: option.splits)
  next
    case False
    then obtain d0 where bd0: "bd0 = Some d0" and ge: "\<not> ?dist < d0"
      by (cases bd0) auto
    have "case bd0 of
            None \<Rightarrow> seen @ [r] = []
          | Some d \<Rightarrow> d = relativeDistance c b0 \<and> b0 \<in> set (seen @ [r]) \<and>
                      (\<forall>x\<in>set (seen @ [r]). d \<le> relativeDistance c x)"
      using Cons.prems(2) bd0 ge by auto
    from Cons.IH [OF stay [OF bd0 ge] this] show ?thesis
      by (auto split: option.splits)
  qed
qed

lemma snapToSimpleRatio_cases:
  obtains best d where
    "snapLoop (max 1 (min 8 ratio)) SIMPLE_RATIOS (hd SIMPLE_RATIOS, None) = (best, Some d)"
    "d = relativeDistance (max 1 (min 8 ratio)) best"
    "best \<in> set SIMPLE_RATIOS"
    "\<forall>r\<in>set SIMPLE_RATIOS. d \<le> relativeDistance (max 1 (min 8 ratio)) r"
    "snapToSimpleRatio ratio = (if d < 15 / 100 then best else max 1 (min 8 ratio))"
proof -
  let ?c = "max 1 (min 8 ratio)"
  obtain best bd where run: "snapLoop ?c SIMPLE_RATIOS (hd SIMPLE_RATIOS, None) = (best, bd)"
    by (cases "snapLoop ?c SIMPLE_RATIOS (hd SIMPLE_RATIOS, None)") auto
  have start: "case None of
                 None \<Rightarrow> ([]::real list) = []
               | Some d0 \<Rightarrow> d0 = relativeDistance ?c (hd SIMPLE_RATIOS) \<and>
                            hd SIMPLE_RATIOS \<in> set [] \<and>
                            (\<forall>r\<in>set []. d0 \<le> relativeDistance ?c r)"
    by simp
  have nonempty: "SIMPLE_RATIOS \<noteq> []"
    by (simp add: SIMPLE_RATIOS_def)
  from snapLoop_best [OF run start] nonempty obtain d where
    "bd = Some d" "d = relativeDistance ?c best" "best \<in> set SIMPLE_RATIOS"
    "\<forall>r\<in>set SIMPLE_RATIOS. d \<le> relativeDistance ?c r"
    by (cases bd) auto
  moreover from this(1) run
  have "snapToSimpleRatio ratio = (if d < 15 / 100 then best else ?c)"
    by (simp add: snapToSimpleRatio_def Let_def)
  ultimately show thesis
    using run that by blast
qed

lemma snap_examples:
  "snapToSimpleRatio (148 / 100) = 3 / 2"
  "snapToSimpleRatio (12 / 10) = 5 / 4"
  "snapToSimpleRatio 6 = 6"
  by (simp_all add: snapToSimpleRatio_def SIMPLE_RATIOS_def Let_def)

text \<open>
  Claim C5, as stated, fails where the entry nearest to the clamped value is not the
  entry at the least relative distance. 1.12 is nearer to 1 than to any other entry, and
  1 is at relative distance 0.12, below 0.15; yet the function returns 1.25, which is at
  the smaller relative distance 0.104. 1.73 is nearest to 1.5, which is at relative
  distance 0.153, not below 0.15; yet the function does not return 1.73 but 2, which is
  at relative distance 0.135.
\<close>

theorem snap_nearest_entry_counterexample:
  "max 1 (min 8 (112 / 100)) = (112 / 100 :: real) \<and>
   SIMPLE_RATIOS = [1, 5 / 4, 1333 / 1000, 3 / 2, 2, 5 / 2, 3, 4, 8] \<and>
   \<bar>112 / 100 - 1\<bar> < \<bar>112 / 100 - 5 / (4::real)\<bar> \<and>
   \<bar>112 / 100 - 1\<bar> < \<bar>112 / 100 - 1333 / (1000::real)\<bar> \<and>
   \<bar>112 / 100 - 1\<bar> < \<bar>112 / 100 - 3 / (2::real)\<bar> \<and>
   \<bar>112 / 100 - 1\<bar> < \<bar>112 / 100 - (2::real)\<bar> \<and>
   \<bar>112 / 100 - 1\<bar> < \<bar>112 / 100 - 5 / (2::real)\<bar> \<and>
   \<bar>112 / 100 - 1\<bar> < \<bar>112 / 100 - (3::real)\<bar> \<and>
   \<bar>112 / 100 - 1\<bar> < \<bar>112 / 100 - (4::real)\<bar> \<and>
   \<bar>112 / 100 - 1\<bar> < \<bar>112 / 100 - (8::real)\<bar> \<and>
   relativeDistance (112 / 100) 1 < 15 / 100 \<and>
   snapToSimpleRatio (112 / 100) = 5 / 4 \<and>
   snapToSimpleRatio (112 / 100) \<noteq> 1 \<and>
   max 1 (min 8 (173 / 100)) = (173 / 100 :: real) \<and>
   \<bar>173 / 100 - 3 / 2\<bar> < \<bar>173 / 100 - (1::real)\<bar> \<and>
   \<bar>173 / 100 - 3 / 2\<bar> < \<bar>173 / 100 - 5 / (4::real)\<bar> \<and>
   \<bar>173 / 100 - 3 / 2\<bar> < \<bar>173 / 100 - 1333 / (1000::real)\<bar> \<and>
   \<bar>173 / 100 - 3 / 2\<bar> < \<bar>173 / 100 - (2::real)\<bar> \<and>
   \<bar>173 / 100 - 3 / 2\<bar> < \<bar>173 / 100 - 5 / (2::real)\<bar> \<and>
   \<bar>173 / 100 - 3 / 2\<bar> < \<bar>173 / 100 - (3::real)\<bar> \<and>
   \<bar>173 / 100 - 3 / 2\<bar> < \<bar>173 / 100 - (4::real)\<bar> \<and>
   \<bar>173 / 100 - 3 / 2\<bar> < \<bar>173 / 100 - (8::real)\<bar> \<and>
   \<not> relativeDistance (173 / 100) (3 / 2) < 15 / 100 \<and>
   snapToSimpleRatio (173 / 100) = 2 \<and>
   snapToSimpleRatio (173 / 100) \<noteq> 173 / 100"
proof -
  have a: "snapToSimpleRatio (112 / 100) = 5 / 4" "snapToSimpleRatio (173 / 100) = 2"
    by (simp_all add: snapToSimpleRatio_def SIMPLE_RATIOS_def Let_def)
  have b: "relativeDistance (112 / 100) 1 < 15 / 100"
    "\<not> relativeDistance (173 / 100) (3 / 2) < 15 / 100"
    by (simp_all add: relativeDistance_def)
  show ?thesis
    unfolding a using b by (simp add: SIMPLE_RATIOS_def)
qed

text \<open>
  Claim C5, amended. \<^verbatim>\<open>snapToSimpleRatio\<close> clamps its argument to \<open>[1, 8]\<close>. If some table
  entry is at relative distance \<open>|clamped - entry| / entry\<close> below 0.15 from the clamped
  value, the result is a table entry whose relative distance from the clamped value is
  the least over the table (and so below 0.15); otherwise the result is the clamped
  value. In particular 1.48 gives 1.5, 1.2 gives 1.25 and 6 gives 6.
\<close>

theorem snapToSimpleRatio_nearest:
  "(if \<exists>r\<in>set SIMPLE_RATIOS. relativeDistance (max 1 (min 8 ratio)) r < 15 / 100
    then snapToSimpleRatio ratio \<in> set SIMPLE_RATIOS \<and>
         relativeDistance (max 1 (min 8 ratio)) (snapToSimpleRatio ratio) < 15 / 100 \<and>
         (\<forall>r\<in>set SIMPLE_RATIOS.
            relativeDistance (max 1 (min 8 ratio)) (snapToSimpleRatio ratio)
              \<le> relativeDistance (max 1 (min 8 ratio)) r)
    else snapToSimpleRatio ratio = max 1 (min 8 ratio)) \<and>
   snapToSimpleRatio (148 / 100) = 3 / 2 \<and>
   snapToSimpleRatio (12 / 10) = 5 / 4 \<and>
   snapToSimpleRatio 6 = 6"
proof -
  let ?c = "max 1 (min 8 ratio)"
  obtain best d where
    d: "d = relativeDistance ?c best" and mem: "best \<in> set SIMPLE_RATIOS"
    and least: "\<forall>r\<in>set SIMPLE_RATIOS. d \<le> relativeDistance ?c r"
    and res: "snapToSimpleRatio ratio = (if d < 15 / 100 then best else ?c)"
    by (rule snapToSimpleRatio_cases)
  have "if \<exists>r\<in>set SIMPLE_RATIOS. relativeDistance ?c r < 15 / 100
        then snapToSimpleRatio ratio \<in> set SIMPLE_RATIOS \<and>
             relativeDistance ?c (snapToSimpleRatio ratio) < 15 / 100 \<and>
             (\<forall>r\<in>set SIMPLE_RATIOS.
                relativeDistance ?c (snapToSimpleRatio ratio) \<le> relativeDistance ?c r)
        else snapToSimpleRatio ratio = ?c"
  proof (cases "\<exists>r\<in>set SIMPLE_RATIOS. relativeDistance ?c r < 15 / 100")
    case True
    then obtain r where "r \<in> set SIMPLE_RATIOS" "relativeDistance ?c r < 15 / 100"
      by blast
    with least have "d < 15 / 100" by force
    with res have "snapToSimpleRatio ratio = best" by simp
    with True d mem least \<open>d < 15 / 100\<close> show ?thesis by simp
  next
    case False
    with mem d have "\<not> d < 15 / 100" by blast
    with res False show ?thesis by simp
  qed
  with snap_examples show ?thesis by simp
qed

theorem snapToSimpleRatio_nearest_witness:
  "(\<exists>r\<in>set SIMPLE_RATIOS. relativeDistance (max 1 (min 8 (148 / 100))) r < 15 / 100) \<and>
   snapToSimpleRatio (148 / 100) \<in> set SIMPLE_RATIOS \<and>
   relativeDistance (max 1 (min 8 (148 / 100))) (snapToSimpleRatio (148 / 100)) < 15 / 100 \<and>
   relativeDistance (max 1 (min 8 (148 / 100))) (snapToSimpleRatio (148 / 100))
     \<le> relativeDistance (max 1 (min 8 (148 / 100))) (1333 / 1000) \<and>
   \<not> (\<exists>r\<in>set SIMPLE_RATIOS. relativeDistance (max 1 (min 8 6)) r < 15 / 100) \<and>
   snapToSimpleRatio 6 = max 1 (min 8 6)"
proof -
  have near: "\<exists>r\<in>set SIMPLE_RATIOS. relativeDistance (max 1 (min 8 (148 / 100))) r < 15 / 100"
    by (simp add: SIMPLE_RATIOS_def relativeDistance_def)
  have far: "\<not> (\<exists>r\<in>set SIMPLE_RATIOS. relativeDistance (max 1 (min 8 6)) r < 15 / 100)"
    by (simp add: SIMPLE_RATIOS_def relativeDistance_def)
  have entry: "1333 / 1000 \<in> set SIMPLE_RATIOS"
    by (simp add: SIMPLE_RATIOS_def)
  have a: "snapToSimpleRatio (148 / 100) \<in> set SIMPLE_RATIOS \<and>
     relativeDistance (max 1 (min 8 (148 / 100))) (snapToSimpleRatio (148 / 100)) < 15 / 100 \<and>
     (\<forall>r\<in>set SIMPLE_RATIOS.
        relativeDistance (max 1 (min 8 (148 / 100))) (snapToSimpleRatio (148 / 100))
          \<le> relativeDistance (max 1 (min 8 (148 / 100))) r)"
    using near snapToSimpleRatio_nearest [of "148 / 100", THEN conjunct1]
    by (simp only: if_True, blast)
  have b: "snapToSimpleRatio 6 = max 1 (min 8 6)"
    using far snapToSimpleRatio_nearest [of 6, THEN conjunct1]
    by (simp only: if_False, blast?)
  from near far a b entry show ?thesis by blast
qed

subsection \<open>The next melody note\<close>

lemma random_index:
  assumes "randomDraw r" "xs \<noteq> []"
  shows "0 \<le> \<lfloor>r * real (length xs)\<rfloor> \<and> nat \<lfloor>r * real (length xs)\<rfloor> < length xs"
proof -
  have len: "0 < real (length xs)" using assms(2) by simp
  have "0 \<le> r * real (length xs)"
    using assms(1) by (simp add: randomDraw_def)
  then have lo: "0 \<le> \<lfloor>r * real (length xs)\<rfloor>" by simp
  have "r * real (length xs) < 1 * real (length xs)"
    using assms(1) len by (intro mult_strict_right_mono) (simp_all add: randomDraw_def)
  then have "\<lfloor>r * real (length xs)\<rfloor> < int (length xs)"
    by (simp add: floor_less_iff)
  with lo show ?thesis by linarith
qed

lemma nextMelodyNote_pool:
  assumes "randomDraw r2" "candidateNotes (rootMidi e) (currentScale e) \<noteq> []"
  shows "\<exists>n. nextMelodyNote r1 r2 e = Some n \<and>
             n \<in> set (let candidates = candidateNotes (rootMidi e) (currentScale e);
                           stepwise = stepwiseNotes (lastMelodyMidi e) candidates;
                           leaps = leapNotes (lastMelodyMidi e) candidates
                       in if r1 < 7 / 10 \<and> stepwise \<noteq> [] then stepwise
                          else if leaps \<noteq> [] then leaps else candidates)"
proof -
  let ?cs = "candidateNotes (rootMidi e) (currentScale e)"
  let ?pool = "if r1 < 7 / 10 \<and> stepwiseNotes (lastMelodyMidi e) ?cs \<noteq> []
               then stepwiseNotes (lastMelodyMidi e) ?cs
               else if leapNotes (lastMelodyMidi e) ?cs \<noteq> []
                    then leapNotes (lastMelodyMidi e) ?cs else ?cs"
  have ne: "?pool \<noteq> []" using assms(2) by simp
  from random_index [OF assms(1) ne]
  have idx: "0 \<le> \<lfloor>r2 * real (length ?pool)\<rfloor>" "nat \<lfloor>r2 * real (length ?pool)\<rfloor> < length ?pool"
    by simp_all
  then have "nextMelodyNote r1 r2 e = Some (?pool ! nat \<lfloor>r2 * real (length ?pool)\<rfloor>)"
    using assms(2) unfolding nextMelodyNote_def Let_def by simp
  moreover have "?pool ! nat \<lfloor>r2 * real (length ?pool)\<rfloor> \<in> set ?pool"
    using idx(2) by (rule nth_mem)
  ultimately show ?thesis unfolding Let_def by blast
qed

lemma nextMelodyNote_defined:
  assumes "randomDraw r2"
  shows "\<exists>n. nextMelodyNote r1 r2 e = Some n"
proof (cases "candidateNotes (rootMidi e) (currentScale e) = []")
  case True
  then show ?thesis by (simp add: nextMelodyNote_def)
next
  case False
  from nextMelodyNote_pool [OF assms False] show ?thesis by blast
qed

text \<open>
  Claim C9. Whatever the engine state, \<^verbatim>\<open>_nextMelodyNote\<close> returns a note (it neither
  throws nor returns \<^verbatim>\<open>undefined\<close>), given that \<^verbatim>\<open>Math.random()\<close> keeps to \<open>[0, 1)\<close>. When
  every candidate is more than 5 semitones from the previous note and the leap bucket is
  not empty, the note returned is in the leap bucket.
\<close>

theorem nextMelodyNote_leap_fallback:
  assumes "randomDraw r2"
  shows "(\<exists>n. nextMelodyNote r1 r2 e = Some n) \<and>
         ((\<forall>n\<in>set (candidateNotes (rootMidi e) (currentScale e)). \<bar>n - lastMelodyMidi e\<bar> > 5) \<and>
          leapNotes (lastMelodyMidi e) (candidateNotes (rootMidi e) (currentScale e)) \<noteq> []
          \<longrightarrow> (\<exists>n. nextMelodyNote r1 r2 e = Some n \<and>
                    n \<in> set (leapNotes (lastMelodyMidi e)
                               (candidateNotes (rootMidi e) (currentScale e))) \<and>
                    \<bar>n - lastMelodyMidi e\<bar> > 5))"
proof -
  let ?cs = "candidateNotes (rootMidi e) (currentScale e)"
  have "\<exists>n. nextMelodyNote r1 r2 e = Some n \<and> n \<in> set (leapNotes (lastMelodyMidi e) ?cs) \<and>
            \<bar>n - lastMelodyMidi e\<bar> > 5"
    if far: "\<forall>n\<in>set ?cs. \<bar>n - lastMelodyMidi e\<bar> > 5"
      and leaps: "leapNotes (lastMelodyMidi e) ?cs \<noteq> []"
  proof -
    have step: "stepwiseNotes (lastMelodyMidi e) ?cs = []"
      using far by (auto simp: stepwiseNotes_def filter_empty_conv)
    have ne: "?cs \<noteq> []"
      using leaps by (auto simp: leapNotes_def)
    from nextMelodyNote_pool [OF assms ne, of r1] step leaps
    obtain n where n: "nextMelodyNote r1 r2 e = Some n"
      "n \<in> set (leapNotes (lastMelodyMidi e) ?cs)"
      by (auto simp: Let_def)
    then have "\<bar>n - lastMelodyMidi e\<bar> > 5"
      by (simp add: leapNotes_def)
    with n show ?thesis by blast
  qed
  with nextMelodyNote_defined [OF assms] show ?thesis by blast
qed

theorem nextMelodyNote_leap_fallback_witness:
  "randomDraw (1 / 2) \<and>
   candidateNotes (rootMidi (new_Engine\<lparr> currentScale := [0], lastMelodyMidi := 66 \<rparr>))
     (currentScale (new_Engine\<lparr> currentScale := [0], lastMelodyMidi := 66 \<rparr>))
     = [48, 60, 72, 84] \<and>
   \<not> (\<exists>n\<in>set [48, 60, 72, 84].
        \<bar>n - lastMelodyMidi (new_Engine\<lparr> currentScale := [0], lastMelodyMidi := 66 \<rparr>)\<bar> \<le> 5) \<and>
   leapNotes 66 [48, 60, 72, 84] = [48, 60, 72, 84] \<and>
   nextMelodyNote (1 / 2) (1 / 2) (new_Engine\<lparr> currentScale := [0], lastMelodyMidi := 66 \<rparr>)
     = Some 72 \<and>
   (\<exists>n. nextMelodyNote (1 / 2) (1 / 2) (new_Engine\<lparr> currentScale := [0], lastMelodyMidi := 66 \<rparr>)
           = Some n \<and> \<bar>n - 66\<bar> > 5)"
proof -
  let ?e = "new_Engine\<lparr> currentScale := [0], lastMelodyMidi := 66 \<rparr>"
  have r: "randomDraw (1 / 2)" by (simp add: randomDraw_def)
  have fields: "rootMidi ?e = 60" "currentScale ?e = [0]" "lastMelodyMidi ?e = 66"
    by (simp_all add: new_Engine_def)
  have cs: "candidateNotes 60 [0] = [48, 60, 72, 84]"
    by (simp add: candidateNotes_def)
  have leaps: "leapNotes 66 [48, 60, 72, 84] = [48, 60, 72, 84]"
    by (simp add: leapNotes_def)
  have far: "\<forall>n\<in>set (candidateNotes (rootMidi ?e) (currentScale ?e)). \<bar>n - lastMelodyMidi ?e\<bar> > 5"
    by (simp add: fields cs)
  have val: "nextMelodyNote (1 / 2) (1 / 2) ?e = Some 72"
    by (simp add: nextMelodyNote_def fields cs leaps stepwiseNotes_def Let_def)
  from nextMelodyNote_leap_fallback [OF r, of "1 / 2" ?e] far
  have "\<exists>n. nextMelodyNote (1 / 2) (1 / 2) ?e = Some n \<and> \<bar>n - 66\<bar> > 5"
    by (simp add: fields cs leaps) blast
  with r far val cs leaps show ?thesis by (simp add: fields)
qed

subsection \<open>Claiming a voice\<close>

lemma findIndex_Some:
  "findIndex P xs = Some i \<Longrightarrow> i < length xs \<and> P (xs ! i) \<and> (\<forall>j<i. \<not> P (xs ! j))"
proof (induction xs arbitrary: i)
  case Nil
  then show ?case by simp
next
  case (Cons x xs)
  show ?case
  proof (cases "P x")
    case True
    with Cons.prems show ?thesis by simp
  next
    case False
    with Cons.prems obtain k where k: "findIndex P xs = Some k" "i = Suc k"
      by auto
    from Cons.IH [OF k(1)] False k(2) show ?thesis
      by (auto simp: nth_Cons split: nat.splits)
  qed
qed

lemma findIndex_None: "findIndex P xs = None \<longleftrightarrow> (\<forall>x\<in>set xs. \<not> P x)"
  by (induction xs) auto

lemma claimVoice_length:
  assumes "claimVoice now rnd pool = Some (i, pool')"
  shows "length pool' = length pool \<and> i < length pool"
proof (cases "findIndex (\<lambda>v. \<not> busy v) pool")
  case None
  with assms show ?thesis
    by (auto simp: claimVoice_def Let_def split: if_splits)
next
  case (Some k)
  from findIndex_Some [OF Some] assms Some show ?thesis
    by (auto simp: claimVoice_def)
qed

lemma claimVoice_succeeds:
  assumes "randomDraw rnd" "pool \<noteq> []"
  shows "\<exists>i pool'. claimVoice now rnd pool = Some (i, pool')"
proof (cases "findIndex (\<lambda>v. \<not> busy v) pool")
  case None
  from random_index [OF assms] None show ?thesis
    by (simp add: claimVoice_def Let_def)
next
  case (Some k)
  then show ?thesis by (simp add: claimVoice_def)
qed

lemma claimVoice_free:
  assumes "claimVoice now rnd pool = Some (i, pool')" "\<exists>v\<in>set pool. \<not> busy v"
  shows "\<not> busy (pool ! i) \<and> (\<forall>j<i. busy (pool ! j)) \<and>
         pool' = pool[i := (pool ! i)\<lparr> busy := True \<rparr>]"
proof -
  from assms(2) obtain k where k: "findIndex (\<lambda>v. \<not> busy v) pool = Some k"
    using findIndex_None [of "\<lambda>v. \<not> busy v" pool] by (cases "findIndex (\<lambda>v. \<not> busy v) pool") auto
  from findIndex_Some [OF k] assms(1) k show ?thesis
    by (auto simp: claimVoice_def)
qed

lemma claimVoice_steal:
  assumes "claimVoice now rnd pool = Some (i, pool')" "\<forall>v\<in>set pool. busy v"
  shows "busy (pool ! i) \<and>
         pool' = pool[i := (pool ! i)
                   \<lparr> gain := setValueAtTime 0 now (cancelScheduledValues now (gain (pool ! i))),
                     busy := True \<rparr>]"
proof -
  from assms(2) have none: "findIndex (\<lambda>v. \<not> busy v) pool = None"
    by (simp add: findIndex_None)
  with assms(1) have i: "i < length pool"
    and eq: "pool' = pool[i := (pool ! i)
                   \<lparr> gain := setValueAtTime 0 now (cancelScheduledValues now (gain (pool ! i))),
                     busy := True \<rparr>]"
    by (auto simp: claimVoice_def Let_def split: if_splits)
  from i assms(2) have "busy (pool ! i)" by simp
  with eq show ?thesis by simp
qed

lemma silenced_from_now:
  "scheduledFrom now (setValueAtTime 0 now (cancelScheduledValues now g)) = [SetValueAtTime 0 now]"
proof -
  have "filter (\<lambda>ev. now \<le> event_time ev) (filter (\<lambda>ev. event_time ev < now) (events g)) = []"
    by (auto simp: filter_empty_conv)
  then show ?thesis
    by (simp add: scheduledFrom_def setValueAtTime_def cancelScheduledValues_def)
qed

subsection \<open>The schedule functions\<close>

lemma scheduleDrone_eq:
  assumes "ctx e = Some c" "audioState e = Some st"
  shows "scheduleDrone e =
         e\<lparr> nextTime := (nextTime e)
              \<lparr> drone := max (currentTime c) (drone (nextTime e)) + (8 + (1 - musicDensity st) * 12) \<rparr> \<rparr>"
  using assms by (simp add: scheduleDrone_def Let_def)

lemma scheduleSparkle_eq:
  assumes "ctx e = Some c" "audioState e = Some st"
  shows "scheduleSparkle u e =
         (if noise_ready e
          then e\<lparr> nextTime := (nextTime e)
                   \<lparr> sparkle := max (currentTime c) (sparkle (nextTime e))
                        + max (1 / 10) (exponentialRandom (1 / 2 + (1 - musicDensity st) * (5 / 2)) u) \<rparr> \<rparr>
          else e)"
  using assms by (simp add: scheduleSparkle_def Let_def)

lemma scheduleMelody_result:
  assumes "scheduleMelody d e = Some e'" "ctx e = Some c" "audioState e = Some st" "config_set e"
  shows "\<exists>nextMidi pool5.
           length pool5 = length (voicePool e) \<and>
           e' = e\<lparr> lastMelodyMidi := nextMidi, voicePool := pool5,
                   nextTime := (nextTime e)
                     \<lparr> melody := max (currentTime c) (melody (nextTime e))
                          + (3 / 2 + (1 - musicDensity st) * (9 / 2)) \<rparr> \<rparr>"
proof -
  let ?now = "max (currentTime c) (melody (nextTime e))"
  let ?interval = "3 / 2 + (1 - musicDensity st) * (9 / 2)"
  let ?sustain = "?interval * (1 / 2) + 3 / 10"
  from assms obtain nextMidi where
    picked: "nextMelodyNote (bucketDraw d) (indexDraw d) e = Some nextMidi"
    by (auto simp: scheduleMelody_def Let_def split: option.splits)
  from assms picked obtain voice pool0 where
    c0: "claimVoice ?now (stealDraw0 d) (voicePool e) = Some (voice, pool0)"
    by (auto simp: scheduleMelody_def Let_def split: option.splits)
  let ?pool1 = "pool0[voice := (pool0 ! voice)
                  \<lparr> gain := mainEnvelope ?now (8 / 100) ?sustain (45 / 100)
                              (12 / 100 * (55 / 100) ^ 0) (gain (pool0 ! voice)) \<rparr>]"
  from assms picked c0 obtain pv1 pool2 where
    c1: "claimVoice ?now (stealDraw1 d) ?pool1 = Some (pv1, pool2)"
    by (auto simp: scheduleMelody_def Let_def split: option.splits)
  let ?pool3 = "pool2[pv1 := (pool2 ! pv1)
                  \<lparr> gain := partialEnvelope ?now (8 / 100) ?sustain (45 / 100)
                              (12 / 100 * (55 / 100) ^ 1) (gain (pool2 ! pv1)) \<rparr>]"
  from assms picked c0 c1 obtain pv2 pool4 where
    c2: "claimVoice ?now (stealDraw2 d) ?pool3 = Some (pv2, pool4)"
    by (auto simp: scheduleMelody_def Let_def split: option.splits)
  let ?pool5 = "pool4[pv2 := (pool4 ! pv2)
                  \<lparr> gain := partialEnvelope ?now (8 / 100) ?sustain (45 / 100)
                              (12 / 100 * (55 / 100) ^ 2) (gain (pool4 ! pv2)) \<rparr>]"
  have "e' = e\<lparr> lastMelodyMidi := nextMidi, voicePool := ?pool5,
               nextTime := (nextTime e)\<lparr> melody := ?now + ?interval \<rparr> \<rparr>"
    using assms picked c0 c1 c2 by (simp add: scheduleMelody_def Let_def)
  moreover have "length ?pool5 = length (voicePool e)"
    using claimVoice_length [OF c0] claimVoice_length [OF c1] claimVoice_length [OF c2]
    by simp
  ultimately show ?thesis by blast
qed

lemma scheduleMelody_succeeds:
  assumes "randomDraw (indexDraw d)" "randomDraw (stealDraw0 d)" "randomDraw (stealDraw1 d)"
    "randomDraw (stealDraw2 d)" "ctx e \<noteq> None \<longrightarrow> voicePool e \<noteq> []"
  shows "\<exists>e'. scheduleMelody d e = Some e'"
proof (cases "\<exists>c st. ctx e = Some c \<and> audioState e = Some st \<and> config_set e")
  case False
  then show ?thesis
    by (auto simp: scheduleMelody_def split: option.splits)
next
  case True
  then obtain c st where ctx: "ctx e = Some c" and st: "audioState e = Some st"
    and cfg: "config_set e" by blast
  let ?now = "max (currentTime c) (melody (nextTime e))"
  let ?interval = "3 / 2 + (1 - musicDensity st) * (9 / 2)"
  let ?sustain = "?interval * (1 / 2) + 3 / 10"
  from nextMelodyNote_defined [OF assms(1)] obtain nextMidi where
    picked: "nextMelodyNote (bucketDraw d) (indexDraw d) e = Some nextMidi" by blast
  from ctx assms(5) have ne: "voicePool e \<noteq> []" by simp
  from claimVoice_succeeds [OF assms(2) ne] obtain voice pool0 where
    c0: "claimVoice ?now (stealDraw0 d) (voicePool e) = Some (voice, pool0)" by blast
  let ?pool1 = "pool0[voice := (pool0 ! voice)
                  \<lparr> gain := mainEnvelope ?now (8 / 100) ?sustain (45 / 100)
                              (12 / 100 * (55 / 100) ^ 0) (gain (pool0 ! voice)) \<rparr>]"
  have ne1: "?pool1 \<noteq> []"
    using claimVoice_length [OF c0] ne by auto
  from claimVoice_succeeds [OF assms(3) ne1] obtain pv1 pool2 where
    c1: "claimVoice ?now (stealDraw1 d) ?pool1 = Some (pv1, pool2)" by blast
  let ?pool3 = "pool2[pv1 := (pool2 ! pv1)
                  \<lparr> gain := partialEnvelope ?now (8 / 100) ?sustain (45 / 100)
                              (12 / 100 * (55 / 100) ^ 1) (gain (pool2 ! pv1)) \<rparr>]"
  have ne3: "?pool3 \<noteq> []"
    using claimVoice_length [OF c1] ne1 by auto
  from claimVoice_succeeds [OF assms(4) ne3] obtain pv2 pool4 where
    c2: "claimVoice ?now (stealDraw2 d) ?pool3 = Some (pv2, pool4)" by blast
  show ?thesis
    using ctx st cfg picked c0 c1 c2 by (simp add: scheduleMelody_def Let_def)
qed

lemma scheduleMelody_outside:
  assumes "\<not> (\<exists>c st. ctx e = Some c \<and> audioState e = Some st \<and> config_set e)"
  shows "scheduleMelody d e = Some e"
  using assms by (auto simp: scheduleMelody_def split: option.splits)

subsection \<open>One scheduler run\<close>

lemma advance_mono:
  fixes iv :: real
  assumes "0 \<le> iv"
  shows "x \<le> max t x + iv"
  using assms by simp

lemma schedulerTick_idle:
  assumes "\<not> (\<exists>c st. ctx e = Some c \<and> audioState e = Some st \<and> config_set e \<and> \<not> suspended c)"
  shows "schedulerTick d e = Some ([], e)"
  using assms by (auto simp: schedulerTick_def split: option.splits)

lemma schedulerTick_run:
  assumes "ctx e = Some c" "audioState e = Some st" "config_set e" "\<not> suspended c"
  shows "schedulerTick d e =
          (let (calls1, e1) = (if droneEnabled st \<and> drone (nextTime e) < currentTime c + LOOKAHEAD
                               then ([Drone], scheduleDrone e) else ([], e))
           in case (if melodyEnabled st \<and> melody (nextTime e1) < currentTime c + LOOKAHEAD
                    then map_option (Pair [Melody]) (scheduleMelody (melodyDraws d) e1)
                    else Some ([], e1)) of
                None \<Rightarrow> None
              | Some (calls2, e2) \<Rightarrow>
                  (let (calls3, e3) = (if sparkleEnabled st \<and>
                                          sparkle (nextTime e2) < currentTime c + LOOKAHEAD
                                       then ([Sparkle], scheduleSparkle (sparkleDraw d) e2)
                                       else ([], e2))
                   in Some (calls1 @ calls2 @ calls3, e3)))"
  unfolding schedulerTick_def using assms
  by (simp only: option.case prod.case if_False if_True Let_def simp_thms)

lemma schedulerTick_active:
  assumes run: "ctx e = Some c" "audioState e = Some st" "config_set e" "\<not> suspended c"
    and density: "musicDensity st \<le> 1"
    and pool: "voicePool e \<noteq> []"
    and draws: "drawsInRange d"
  shows "\<exists>calls e'. schedulerTick d e = Some (calls, e') \<and> sameControl e e' \<and>
           calls = (if droneEnabled st \<and> drone (nextTime e) < currentTime c + LOOKAHEAD
                    then [Drone] else [])
                 @ (if melodyEnabled st \<and> melody (nextTime e) < currentTime c + LOOKAHEAD
                    then [Melody] else [])
                 @ (if sparkleEnabled st \<and> sparkle (nextTime e) < currentTime c + LOOKAHEAD
                    then [Sparkle] else []) \<and>
           drone (nextTime e) \<le> drone (nextTime e') \<and>
           melody (nextTime e) \<le> melody (nextTime e') \<and>
           sparkle (nextTime e) \<le> sparkle (nextTime e') \<and>
           (Drone \<in> set calls \<longrightarrow> drone (nextTime e) < currentTime c + LOOKAHEAD) \<and>
           (Melody \<in> set calls \<longrightarrow> melody (nextTime e) < currentTime c + LOOKAHEAD) \<and>
           (Sparkle \<in> set calls \<longrightarrow> sparkle (nextTime e) < currentTime c + LOOKAHEAD) \<and>
           (Drone \<notin> set calls \<longrightarrow> drone (nextTime e') = drone (nextTime e)) \<and>
           (Melody \<notin> set calls \<longrightarrow> melody (nextTime e') = melody (nextTime e)) \<and>
           (Sparkle \<notin> set calls \<longrightarrow> sparkle (nextTime e') = sparkle (nextTime e))"
proof -
  let ?look = "currentTime c + LOOKAHEAD"
  let ?condD = "droneEnabled st \<and> drone (nextTime e) < ?look"
  let ?condM = "melodyEnabled st \<and> melody (nextTime e) < ?look"
  let ?condS = "sparkleEnabled st \<and> sparkle (nextTime e) < ?look"
  define e1 where "e1 = (if ?condD then scheduleDrone e else e)"
  have e1: "ctx e1 = Some c" "audioState e1 = Some st" "config_set e1"
    "voicePool e1 = voicePool e" "noise_ready e1 = noise_ready e"
    "masterGain_set e1 = masterGain_set e"
    "melody (nextTime e1) = melody (nextTime e)" "sparkle (nextTime e1) = sparkle (nextTime e)"
    using run by (simp_all add: e1_def scheduleDrone_eq [OF run(1,2)])
  have ivD: "0 \<le> 8 + (1 - musicDensity st) * 12"
    and ivM: "0 \<le> 3 / 2 + (1 - musicDensity st) * (9 / 2)"
    using density by simp_all
  have d1: "drone (nextTime e) \<le> drone (nextTime e1)"
    using advance_mono [OF ivD] by (simp add: e1_def scheduleDrone_eq [OF run(1,2)])
  have r1: "\<not> ?condD \<Longrightarrow> drone (nextTime e1) = drone (nextTime e)"
    by (auto simp: e1_def)
  have "\<exists>e2. scheduleMelody (melodyDraws d) e1 = Some e2"
    using draws pool e1(4) by (intro scheduleMelody_succeeds) (simp_all add: drawsInRange_def)
  then obtain em where em: "scheduleMelody (melodyDraws d) e1 = Some em" by blast
  from scheduleMelody_result [OF em e1(1,2,3)] obtain nextMidi pool5 where
    len5: "length pool5 = length (voicePool e1)"
    and em_eq: "em = e1\<lparr> lastMelodyMidi := nextMidi, voicePool := pool5,
                   nextTime := (nextTime e1)
                     \<lparr> melody := max (currentTime c) (melody (nextTime e1))
                          + (3 / 2 + (1 - musicDensity st) * (9 / 2)) \<rparr> \<rparr>"
    by blast
  define e2 where "e2 = (if ?condM then em else e1)"
  have e2: "ctx e2 = Some c" "audioState e2 = Some st" "config_set e2"
    "length (voicePool e2) = length (voicePool e)" "noise_ready e2 = noise_ready e"
    "masterGain_set e2 = masterGain_set e"
    "drone (nextTime e2) = drone (nextTime e1)" "sparkle (nextTime e2) = sparkle (nextTime e)"
    using e1 len5 by (simp_all add: e2_def em_eq)
  have d2: "melody (nextTime e) \<le> melody (nextTime e2)"
    using advance_mono [OF ivM] e1(7) by (simp add: e2_def em_eq)
  have r2: "\<not> ?condM \<Longrightarrow> melody (nextTime e2) = melody (nextTime e)"
    using e1(7) by (auto simp: e2_def)
  define e3 where "e3 = (if ?condS then scheduleSparkle (sparkleDraw d) e2 else e2)"
  have e3: "ctx e3 = Some c" "audioState e3 = Some st" "config_set e3"
    "length (voicePool e3) = length (voicePool e)" "noise_ready e3 = noise_ready e"
    "masterGain_set e3 = masterGain_set e"
    "drone (nextTime e3) = drone (nextTime e1)" "melody (nextTime e3) = melody (nextTime e2)"
    using e2 by (simp_all add: e3_def scheduleSparkle_eq [OF e2(1,2)])
  have r3: "\<not> ?condS \<Longrightarrow> sparkle (nextTime e3) = sparkle (nextTime e)"
    using e2(8) by (auto simp: e3_def)
  have d3: "sparkle (nextTime e) \<le> sparkle (nextTime e3)"
    using e2(8) advance_mono [of "max (1 / 10) (exponentialRandom (1 / 2 + (1 - musicDensity st) * (5 / 2)) (sparkleDraw d))"]
    by (simp add: e3_def scheduleSparkle_eq [OF e2(1,2)])
  let ?calls = "(if ?condD then [Drone] else []) @ (if ?condM then [Melody] else [])
                @ (if ?condS then [Sparkle] else [])"
  have step1: "(if droneEnabled st \<and> drone (nextTime e) < ?look
                then ([Drone], scheduleDrone e) else ([], e))
               = ((if ?condD then [Drone] else []), e1)"
    by (simp add: e1_def)
  have step2: "(if melodyEnabled st \<and> melody (nextTime e1) < ?look
                then map_option (Pair [Melody]) (scheduleMelody (melodyDraws d) e1)
                else Some ([], e1))
               = Some ((if ?condM then [Melody] else []), e2)"
    using em e1(7) by (simp add: e2_def)
  have step3: "(if sparkleEnabled st \<and> sparkle (nextTime e2) < ?look
                then ([Sparkle], scheduleSparkle (sparkleDraw d) e2) else ([], e2))
               = ((if ?condS then [Sparkle] else []), e3)"
    using e2(8) by (simp add: e3_def)
  have "schedulerTick d e =
          (let (calls1, e1) = (if droneEnabled st \<and> drone (nextTime e) < ?look
                               then ([Drone], scheduleDrone e) else ([], e))
           in case (if melodyEnabled st \<and> melody (nextTime e1) < ?look
                    then map_option (Pair [Melody]) (scheduleMelody (melodyDraws d) e1)
                    else Some ([], e1)) of
                None \<Rightarrow> None
              | Some (calls2, e2) \<Rightarrow>
                  (let (calls3, e3) = (if sparkleEnabled st \<and> sparkle (nextTime e2) < ?look
                                       then ([Sparkle], scheduleSparkle (sparkleDraw d) e2)
                                       else ([], e2))
                   in Some (calls1 @ calls2 @ calls3, e3)))"
    by (rule schedulerTick_run [OF run])
  also have "\<dots> = Some (?calls, e3)"
    by (simp only: step1 prod.case Let_def step2 option.case step3)
  finally have tick: "schedulerTick d e = Some (?calls, e3)" .
  have ctl: "sameControl e e3"
    using e3 run by (simp add: sameControl_def)
  have calls: "Drone \<in> set ?calls \<longleftrightarrow> ?condD" "Melody \<in> set ?calls \<longleftrightarrow> ?condM"
    "Sparkle \<in> set ?calls \<longleftrightarrow> ?condS"
    by simp_all
  show ?thesis
    using tick ctl d1 d2 d3 r1 r2 r3 e3(7,8) calls by (intro exI [of _ ?calls] exI [of _ e3]) simp
qed

text \<open>
  Claim C3. Take an engine whose density is in its documented range (at most 1), whose
  pool is not empty once it has a context, and random numbers in \<open>[0, 1)\<close>. A scheduler
  run then completes; none of the three \<open>nextTime\<close> values is smaller after it than
  before; a layer's schedule function is called only if that layer's \<open>nextTime\<close> is
  strictly below the audio clock plus \<open>LOOKAHEAD\<close> (0.025 s); and the \<open>nextTime\<close> of a layer
  that is not called does not change.
\<close>

theorem schedulerTick_monotone:
  assumes "\<forall>st. audioState e = Some st \<longrightarrow> musicDensity st \<le> 1"
    and "ctx e \<noteq> None \<longrightarrow> voicePool e \<noteq> []"
    and "drawsInRange d"
  shows "\<exists>calls e'. schedulerTick d e = Some (calls, e') \<and>
           (\<forall>l. layerTime l (nextTime e) \<le> layerTime l (nextTime e')) \<and>
           (\<forall>l\<in>set calls. \<exists>c. ctx e = Some c \<and>
                              layerTime l (nextTime e) < currentTime c + LOOKAHEAD) \<and>
           (\<forall>l. l \<notin> set calls \<longrightarrow> layerTime l (nextTime e') = layerTime l (nextTime e)) \<and>
           LOOKAHEAD = 25 / 1000"
proof (cases "\<exists>c st. ctx e = Some c \<and> audioState e = Some st \<and> config_set e \<and> \<not> suspended c")
  case False
  from schedulerTick_idle [OF False] show ?thesis
    by (simp add: LOOKAHEAD_def)
next
  case True
  then obtain c st where run: "ctx e = Some c" "audioState e = Some st" "config_set e"
    "\<not> suspended c" by blast
  from assms run have "musicDensity st \<le> 1" "voicePool e \<noteq> []" by simp_all
  from schedulerTick_active [OF run this assms(3)] obtain calls e' where
    t: "schedulerTick d e = Some (calls, e')"
    and mono: "drone (nextTime e) \<le> drone (nextTime e')"
      "melody (nextTime e) \<le> melody (nextTime e')"
      "sparkle (nextTime e) \<le> sparkle (nextTime e')"
    and only: "Drone \<in> set calls \<longrightarrow> drone (nextTime e) < currentTime c + LOOKAHEAD"
      "Melody \<in> set calls \<longrightarrow> melody (nextTime e) < currentTime c + LOOKAHEAD"
      "Sparkle \<in> set calls \<longrightarrow> sparkle (nextTime e) < currentTime c + LOOKAHEAD"
    and rest: "Drone \<notin> set calls \<longrightarrow> drone (nextTime e') = drone (nextTime e)"
      "Melody \<notin> set calls \<longrightarrow> melody (nextTime e') = melody (nextTime e)"
      "Sparkle \<notin> set calls \<longrightarrow> sparkle (nextTime e') = sparkle (nextTime e)"
    by blast
  have a: "layerTime l (nextTime e) \<le> layerTime l (nextTime e')" for l
    using mono by (cases l) simp_all
  have b: "l \<in> set calls \<longrightarrow>
           (\<exists>c. ctx e = Some c \<and> layerTime l (nextTime e) < currentTime c + LOOKAHEAD)" for l
    by (cases l) (simp_all add: only run(1))
  have c: "l \<notin> set calls \<longrightarrow> layerTime l (nextTime e') = layerTime l (nextTime e)" for l
    by (cases l) (simp_all add: rest)
  from t a b c LOOKAHEAD_def show ?thesis
    by blast
qed

subsection \<open>The pool over the life of an engine\<close>

lemma sameControl_refl: "sameControl e e"
  by (simp add: sameControl_def)

lemma sameControl_trans: "sameControl e e' \<Longrightarrow> sameControl e' e'' \<Longrightarrow> sameControl e e''"
  by (simp add: sameControl_def)

lemma scheduleDrone_sameControl: "sameControl e (scheduleDrone e)"
  by (simp add: sameControl_def scheduleDrone_def Let_def split: option.splits)

lemma scheduleSparkle_sameControl: "sameControl e (scheduleSparkle u e)"
  by (simp add: sameControl_def scheduleSparkle_def Let_def split: option.splits)

lemma scheduleMelody_sameControl:
  assumes "scheduleMelody d e = Some e'"
  shows "sameControl e e'"
proof (cases "\<exists>c st. ctx e = Some c \<and> audioState e = Some st \<and> config_set e")
  case False
  from scheduleMelody_outside [OF False] assms show ?thesis
    by (simp add: sameControl_refl)
next
  case True
  then obtain c st where "ctx e = Some c" "audioState e = Some st" "config_set e" by blast
  from scheduleMelody_result [OF assms this] show ?thesis
    by (auto simp: sameControl_def)
qed

lemma schedulerTick_sameControl:
  assumes "schedulerTick d e = Some (calls, e')"
  shows "sameControl e e'"
proof (cases "\<exists>c st. ctx e = Some c \<and> audioState e = Some st \<and> config_set e \<and> \<not> suspended c")
  case False
  from schedulerTick_idle [OF False] assms show ?thesis
    by (simp add: sameControl_refl)
next
  case True
  then obtain c st where run: "ctx e = Some c" "audioState e = Some st" "config_set e"
    "\<not> suspended c" by blast
  let ?look = "currentTime c + LOOKAHEAD"
  obtain calls1 e1 where s1: "(if droneEnabled st \<and> drone (nextTime e) < ?look
                               then ([Drone], scheduleDrone e) else ([], e)) = (calls1, e1)"
    by (cases "if droneEnabled st \<and> drone (nextTime e) < ?look
               then ([Drone], scheduleDrone e) else ([]::layer list, e)") blast
  have c1: "sameControl e e1"
    using s1 scheduleDrone_sameControl [of e] sameControl_refl [of e]
    by (auto split: if_splits)
  from assms schedulerTick_run [OF run, of d] s1
  obtain calls2 e2 where
    s2: "(if melodyEnabled st \<and> melody (nextTime e1) < ?look
          then map_option (Pair [Melody]) (scheduleMelody (melodyDraws d) e1)
          else Some ([], e1)) = Some (calls2, e2)"
    and s3: "(let (calls3, e3) = (if sparkleEnabled st \<and> sparkle (nextTime e2) < ?look
                                  then ([Sparkle], scheduleSparkle (sparkleDraw d) e2)
                                  else ([], e2))
              in Some (calls1 @ calls2 @ calls3, e3)) = Some (calls, e')"
    by (auto simp: Let_def split: option.splits)
  have c2: "sameControl e1 e2"
    using s2 scheduleMelody_sameControl [of "melodyDraws d" e1 e2] sameControl_refl [of e1]
    by (auto split: if_splits)
  have c3: "sameControl e2 e'"
    using s3 scheduleSparkle_sameControl [of e2 "sparkleDraw d"] sameControl_refl [of e2]
    by (auto simp: Let_def split: if_splits)
  from c1 c2 c3 show ?thesis
    by (blast intro: sameControl_trans)
qed

lemma reachable_poolInvariant: "reachable e \<Longrightarrow> poolInvariant e"
proof (induction rule: reachable.induct)
  case fresh
  show ?case by (simp add: poolInvariant_def new_Engine_def)
next
  case (initialise e c)
  then show ?case by (simp add: poolInvariant_def init_def)
next
  case (frame e st rootNote scaleDegrees)
  then show ?case by (simp add: poolInvariant_def)
next
  case (clock e c c')
  then show ?case by (simp add: poolInvariant_def)
next
  case (scheduled e d calls e')
  from schedulerTick_sameControl [OF scheduled.hyps(2)] scheduled.IH show ?case
    by (auto simp: poolInvariant_def sameControl_def split: if_splits)
next
  case (released e i)
  then show ?case by (simp add: poolInvariant_def releaseVoice_def)
next
  case (disposed e)
  show ?case by (simp add: poolInvariant_def dispose_def)
qed

lemma reachable_pool_nonempty:
  assumes "reachable e"
  shows "ctx e \<noteq> None \<longrightarrow> voicePool e \<noteq> []"
  using reachable_poolInvariant [OF assms] by (auto simp: poolInvariant_def)

lemma busy_count_le: "length (filter busy pool) \<le> length pool"
  by (rule length_filter_le)

lemma reachable_pool_size:
  assumes "reachable e"
  shows "length (voicePool e) \<le> 6" "ctx e \<noteq> None \<Longrightarrow> length (voicePool e) = 6"
  using reachable_poolInvariant [OF assms] by (auto simp: poolInvariant_def split: if_splits)

text \<open>
  Claim C4. In every state an engine goes through, at most 6 voices are busy. Whenever
  the engine has an audio context (the only states in which \<^verbatim>\<open>_scheduleMelody\<close> calls
  \<^verbatim>\<open>_claimVoice\<close>), the pool holds 6 voices and \<^verbatim>\<open>_claimVoice(now)\<close> returns one of them,
  marked busy, leaving the other voices as they were. If some voice is free it is the
  first free voice, with its gain untouched. If none is free it is a busy voice whose
  gain automation from \<open>now\<close> on is reduced to the single event "set to 0 at \<open>now\<close>".
\<close>

theorem claimVoice_never_fails:
  assumes "reachable e"
  shows "length (filter busy (voicePool e)) \<le> 6 \<and>
         (ctx e \<noteq> None \<and> randomDraw rnd \<longrightarrow>
            (\<exists>i pool'. claimVoice now rnd (voicePool e) = Some (i, pool') \<and>
               i < 6 \<and> length pool' = 6 \<and> busy (pool' ! i) \<and>
               length (filter busy pool') \<le> 6 \<and>
               (\<forall>j. j \<noteq> i \<longrightarrow> pool' ! j = voicePool e ! j) \<and>
               (if \<exists>v\<in>set (voicePool e). \<not> busy v
                then \<not> busy (voicePool e ! i) \<and> (\<forall>j<i. busy (voicePool e ! j)) \<and>
                     gain (pool' ! i) = gain (voicePool e ! i)
                else busy (voicePool e ! i) \<and>
                     scheduledFrom now (gain (pool' ! i)) = [SetValueAtTime 0 now])))"
proof -
  let ?pool = "voicePool e"
  have count: "length (filter busy ?pool) \<le> 6"
    using busy_count_le [of ?pool] reachable_pool_size(1) [OF assms] by linarith
  have "\<exists>i pool'. claimVoice now rnd ?pool = Some (i, pool') \<and>
               i < 6 \<and> length pool' = 6 \<and> busy (pool' ! i) \<and>
               length (filter busy pool') \<le> 6 \<and>
               (\<forall>j. j \<noteq> i \<longrightarrow> pool' ! j = ?pool ! j) \<and>
               (if \<exists>v\<in>set ?pool. \<not> busy v
                then \<not> busy (?pool ! i) \<and> (\<forall>j<i. busy (?pool ! j)) \<and>
                     gain (pool' ! i) = gain (?pool ! i)
                else busy (?pool ! i) \<and>
                     scheduledFrom now (gain (pool' ! i)) = [SetValueAtTime 0 now])"
    if live: "ctx e \<noteq> None" and rnd: "randomDraw rnd"
  proof -
    have six: "length ?pool = 6"
      using reachable_pool_size(2) [OF assms live] .
    then have ne: "?pool \<noteq> []" by auto
    from claimVoice_succeeds [OF rnd ne] obtain i pool' where
      cl: "claimVoice now rnd ?pool = Some (i, pool')" by blast
    from claimVoice_length [OF cl] six have len: "length pool' = 6" "i < 6" by simp_all
    have cnt: "length (filter busy pool') \<le> 6"
      using busy_count_le [of pool'] len(1) by linarith
    have shape: "busy (pool' ! i) \<and> (\<forall>j. j \<noteq> i \<longrightarrow> pool' ! j = ?pool ! j) \<and>
          (if \<exists>v\<in>set ?pool. \<not> busy v
           then \<not> busy (?pool ! i) \<and> (\<forall>j<i. busy (?pool ! j)) \<and>
                gain (pool' ! i) = gain (?pool ! i)
           else busy (?pool ! i) \<and>
                scheduledFrom now (gain (pool' ! i)) = [SetValueAtTime 0 now])"
    proof (cases "\<exists>v\<in>set ?pool. \<not> busy v")
      case True
      from claimVoice_free [OF cl True] len(2) six True show ?thesis
        by simp
    next
      case False
      then have all: "\<forall>v\<in>set ?pool. busy v" by blast
      from claimVoice_steal [OF cl all] len(2) six False show ?thesis
        by (simp add: silenced_from_now)
    qed
    from cl len cnt shape show ?thesis by blast
  qed
  with count show ?thesis by blast
qed

subsection \<open>The concrete engine\<close>

lemma findIndex_map: "findIndex P (map f xs) = findIndex (\<lambda>x. P (f x)) xs"
  by (induction xs) auto

lemma claimVoice_flags:
  assumes "claimVoice now rnd pool = Some (i, pool')"
  shows "map busy pool' = claimFlags (map busy pool)"
proof (cases "findIndex (\<lambda>v. \<not> busy v) pool")
  case None
  then have all: "\<forall>v\<in>set pool. busy v" by (simp add: findIndex_None)
  from claimVoice_steal [OF assms all] claimVoice_length [OF assms]
  have "map busy pool' = (map busy pool)[i := True]"
    by (simp add: map_update)
  also have "\<dots> = map busy pool"
    using all claimVoice_length [OF assms] by (simp add: list_update_same_conv)
  finally show ?thesis
    using None by (simp add: claimFlags_def findIndex_map)
next
  case (Some k)
  with assms have "i = k" "pool' = pool[k := (pool ! k)\<lparr> busy := True \<rparr>]"
    by (auto simp: claimVoice_def)
  with Some findIndex_Some [OF Some] show ?thesis
    by (simp add: claimFlags_def findIndex_map map_update)
qed

lemma scheduleMelody_flags:
  assumes "scheduleMelody d e = Some e'" "ctx e = Some c" "audioState e = Some st" "config_set e"
  shows "map busy (voicePool e') = claimFlags (claimFlags (claimFlags (map busy (voicePool e))))"
proof -
  let ?now = "max (currentTime c) (melody (nextTime e))"
  let ?interval = "3 / 2 + (1 - musicDensity st) * (9 / 2)"
  let ?sustain = "?interval * (1 / 2) + 3 / 10"
  from assms obtain nextMidi where
    picked: "nextMelodyNote (bucketDraw d) (indexDraw d) e = Some nextMidi"
    by (auto simp: scheduleMelody_def Let_def split: option.splits)
  from assms picked obtain voice pool0 where
    c0: "claimVoice ?now (stealDraw0 d) (voicePool e) = Some (voice, pool0)"
    by (auto simp: scheduleMelody_def Let_def split: option.splits)
  let ?pool1 = "pool0[voice := (pool0 ! voice)
                  \<lparr> gain := mainEnvelope ?now (8 / 100) ?sustain (45 / 100)
                              (12 / 100 * (55 / 100) ^ 0) (gain (pool0 ! voice)) \<rparr>]"
  from assms picked c0 obtain pv1 pool2 where
    c1: "claimVoice ?now (stealDraw1 d) ?pool1 = Some (pv1, pool2)"
    by (auto simp: scheduleMelody_def Let_def split: option.splits)
  let ?pool3 = "pool2[pv1 := (pool2 ! pv1)
                  \<lparr> gain := partialEnvelope ?now (8 / 100) ?sustain (45 / 100)
                              (12 / 100 * (55 / 100) ^ 1) (gain (pool2 ! pv1)) \<rparr>]"
  from assms picked c0 c1 obtain pv2 pool4 where
    c2: "claimVoice ?now (stealDraw2 d) ?pool3 = Some (pv2, pool4)"
    by (auto simp: scheduleMelody_def Let_def split: option.splits)
  let ?pool5 = "pool4[pv2 := (pool4 ! pv2)
                  \<lparr> gain := partialEnvelope ?now (8 / 100) ?sustain (45 / 100)
                              (12 / 100 * (55 / 100) ^ 2) (gain (pool4 ! pv2)) \<rparr>]"
  have e': "voicePool e' = ?pool5"
    using assms picked c0 c1 c2 by (auto simp: scheduleMelody_def Let_def)
  have keep: "map busy (xs[k := (xs ! k)\<lparr> gain := g \<rparr>]) = map busy xs" for xs :: "Voice list" and k g
  proof (cases "k < length xs")
    case True
    then show ?thesis by (simp add: map_update list_update_same_conv)
  next
    case False
    then have "xs[k := (xs ! k)\<lparr> gain := g \<rparr>] = xs"
      by (intro list_update_beyond) simp
    then show ?thesis by (simp only:)
  qed
  have "map busy ?pool1 = claimFlags (map busy (voicePool e))"
    using claimVoice_flags [OF c0] by (simp only: keep)
  moreover have "map busy ?pool3 = claimFlags (map busy ?pool1)"
    using claimVoice_flags [OF c1] by (simp only: keep)
  moreover have "map busy ?pool5 = claimFlags (map busy ?pool3)"
    using claimVoice_flags [OF c2] by (simp only: keep)
  ultimately show ?thesis by (simp only: e')
qed

lemma schedulerTick_melody_only:
  assumes "ctx e = Some c" "audioState e = Some st" "config_set e" "\<not> suspended c"
    and "\<not> droneEnabled st" "melodyEnabled st" "\<not> sparkleEnabled st"
    and "melody (nextTime e) < currentTime c + LOOKAHEAD"
    and "schedulerTick d e = Some (calls, e')"
  shows "calls = [Melody] \<and> scheduleMelody (melodyDraws d) e = Some e'"
  using assms(9) unfolding schedulerTick_run [OF assms(1-4)]
  using assms(5-8) by (auto simp: Let_def split: option.splits)

lemma sample_draws_ok: "drawsInRange sample_draws"
  by (simp add: drawsInRange_def sample_draws_def randomDraw_def)

lemma sample_Engine_fields:
  "ctx sample_Engine = Some \<lparr> currentTime = 0, suspended = False \<rparr>"
  "audioState sample_Engine = Some sample_audioState"
  "config_set sample_Engine"
  "voicePool sample_Engine = replicate 6 new_Voice"
  "nextTime sample_Engine = \<lparr> drone = 0, melody = 0, sparkle = 0 \<rparr>"
  by (simp_all add: sample_Engine_def init_def new_Engine_def)

lemma reachable_sample: "reachable (sample_Engine\<lparr> audioState := Some st \<rparr>)"
proof -
  let ?e = "init \<lparr> currentTime = 0, suspended = False \<rparr> new_Engine"
  have "reachable ?e"
    by (intro reachable.initialise reachable.fresh)
  moreover have "masterGain_set ?e"
    by (simp add: init_def new_Engine_def)
  ultimately have "reachable (?e\<lparr> config_set := True, audioState := Some st,
                                  rootMidi := 60, currentScale := pentatonic_minor \<rparr>)"
    by (rule reachable.frame)
  moreover have "sample_Engine\<lparr> audioState := Some st \<rparr>
                 = ?e\<lparr> config_set := True, audioState := Some st,
                       rootMidi := 60, currentScale := pentatonic_minor \<rparr>"
    by (simp add: sample_Engine_def init_def new_Engine_def)
  ultimately show ?thesis
    by simp
qed

lemma after_first_note:
  "reachable sample_Engine_1"
  "ctx sample_Engine_1 = Some \<lparr> currentTime = 0, suspended = False \<rparr>"
  "audioState sample_Engine_1 = Some melody_only"
  "config_set sample_Engine_1"
  "map busy (voicePool sample_Engine_1) = [True, True, True, False, False, False]"
  "melody (nextTime sample_Engine_1) = 15 / 4"
proof -
  let ?e = "sample_Engine\<lparr> audioState := Some melody_only \<rparr>"
  have run: "ctx ?e = Some \<lparr> currentTime = 0, suspended = False \<rparr>"
    "audioState ?e = Some melody_only" "config_set ?e"
    "\<not> suspended \<lparr> currentTime = 0, suspended = False \<rparr>"
    by (simp_all add: sample_Engine_fields)
  have "musicDensity melody_only \<le> 1" "voicePool ?e \<noteq> []"
    by (simp_all add: melody_only_def sample_Engine_fields)
  from schedulerTick_active [OF run this sample_draws_ok] obtain calls e' where
    t: "schedulerTick sample_draws ?e = Some (calls, e')" and ctl: "sameControl ?e e'"
    by blast
  then have e': "sample_Engine_1 = e'"
    by (simp add: sample_Engine_1_def)
  have due: "\<not> droneEnabled melody_only" "melodyEnabled melody_only"
    "\<not> sparkleEnabled melody_only"
    "melody (nextTime ?e) < currentTime \<lparr> currentTime = 0, suspended = False \<rparr> + LOOKAHEAD"
    by (simp_all add: melody_only_def sample_Engine_fields LOOKAHEAD_def)
  from schedulerTick_melody_only [OF run due t]
  have m: "scheduleMelody (melodyDraws sample_draws) ?e = Some e'" by simp
  show "reachable sample_Engine_1"
    unfolding e' using reachable_sample t by (rule reachable.scheduled)
  show "ctx sample_Engine_1 = Some \<lparr> currentTime = 0, suspended = False \<rparr>"
    "audioState sample_Engine_1 = Some melody_only" "config_set sample_Engine_1"
    using ctl run by (simp_all add: e' sameControl_def)
  have "map busy (voicePool ?e) = [False, False, False, False, False, False]"
    by (simp add: sample_Engine_fields new_Voice_def numeral_eq_Suc)
  with scheduleMelody_flags [OF m run(1,2,3)]
  show "map busy (voicePool sample_Engine_1) = [True, True, True, False, False, False]"
    by (simp add: e' claimFlags_def)
  from scheduleMelody_result [OF m run(1,2,3)]
  show "melody (nextTime sample_Engine_1) = 15 / 4"
    by (auto simp: e' melody_only_def sample_Engine_fields)
qed

lemma after_second_note:
  "reachable sample_Engine_2"
  "ctx sample_Engine_2 = Some \<lparr> currentTime = 4, suspended = False \<rparr>"
  "map busy (voicePool sample_Engine_2) = [True, True, True, True, True, True]"
proof -
  let ?c = "\<lparr> currentTime = 4, suspended = False \<rparr>"
  let ?e = "sample_Engine_1\<lparr> ctx := Some ?c \<rparr>"
  have r: "reachable ?e"
    using after_first_note(1,2) by (rule reachable.clock)
  have run: "ctx ?e = Some ?c" "audioState ?e = Some melody_only" "config_set ?e"
    "\<not> suspended ?c"
    by (simp_all add: after_first_note)
  have "musicDensity melody_only \<le> 1" "voicePool ?e \<noteq> []"
    using after_first_note(5) by (auto simp: melody_only_def)
  from schedulerTick_active [OF run this sample_draws_ok] obtain calls e' where
    t: "schedulerTick sample_draws ?e = Some (calls, e')" and ctl: "sameControl ?e e'"
    by blast
  then have e': "sample_Engine_2 = e'"
    by (simp add: sample_Engine_2_def)
  have due: "\<not> droneEnabled melody_only" "melodyEnabled melody_only"
    "\<not> sparkleEnabled melody_only"
    "melody (nextTime ?e) < currentTime ?c + LOOKAHEAD"
    by (simp_all add: melody_only_def after_first_note LOOKAHEAD_def)
  from schedulerTick_melody_only [OF run due t]
  have m: "scheduleMelody (melodyDraws sample_draws) ?e = Some e'" by simp
  show "reachable sample_Engine_2"
    unfolding e' using r t by (rule reachable.scheduled)
  show "ctx sample_Engine_2 = Some ?c"
    using ctl run by (simp add: e' sameControl_def)
  have "map busy (voicePool ?e) = [True, True, True, False, False, False]"
    by (simp add: after_first_note)
  with scheduleMelody_flags [OF m run(1,2,3)]
  show "map busy (voicePool sample_Engine_2) = [True, True, True, True, True, True]"
    by (simp add: e' claimFlags_def)
qed

theorem claimVoice_never_fails_witness:
  "reachable sample_Engine_2 \<and> ctx sample_Engine_2 \<noteq> None \<and> randomDraw (1 / 2) \<and>
   \<not> (\<exists>v\<in>set (voicePool sample_Engine_2). \<not> busy v) \<and>
   (\<exists>i pool'. claimVoice 4 (1 / 2) (voicePool sample_Engine_2) = Some (i, pool') \<and>
      i < 6 \<and> busy (voicePool sample_Engine_2 ! i) \<and>
      scheduledFrom 4 (gain (pool' ! i)) = [SetValueAtTime 0 4]) \<and>
   reachable sample_Engine_1 \<and> ctx sample_Engine_1 \<noteq> None \<and>
   (\<exists>v\<in>set (voicePool sample_Engine_1). \<not> busy v) \<and>
   (\<exists>i pool'. claimVoice 4 (1 / 2) (voicePool sample_Engine_1) = Some (i, pool') \<and>
      \<not> busy (voicePool sample_Engine_1 ! i) \<and> (\<forall>j<i. busy (voicePool sample_Engine_1 ! j)))"
proof -
  have rnd: "randomDraw (1 / 2)" by (simp add: randomDraw_def)
  have live: "ctx sample_Engine_2 \<noteq> None" "ctx sample_Engine_1 \<noteq> None"
    by (simp_all add: after_second_note after_first_note)
  have "set (map busy (voicePool sample_Engine_2)) = {True}"
    by (simp add: after_second_note)
  then have all: "\<not> (\<exists>v\<in>set (voicePool sample_Engine_2). \<not> busy v)"
    by auto
  have "False \<in> set (map busy (voicePool sample_Engine_1))"
    by (simp add: after_first_note)
  then have some: "\<exists>v\<in>set (voicePool sample_Engine_1). \<not> busy v"
    by auto
  from claimVoice_never_fails [OF after_second_note(1), of "1 / 2" 4] live(1) rnd all
  have steal: "\<exists>i pool'. claimVoice 4 (1 / 2) (voicePool sample_Engine_2) = Some (i, pool') \<and>
      i < 6 \<and> busy (voicePool sample_Engine_2 ! i) \<and>
      scheduledFrom 4 (gain (pool' ! i)) = [SetValueAtTime 0 4]"
    by (simp only: if_False simp_thms) blast
  from claimVoice_never_fails [OF after_first_note(1), of "1 / 2" 4] live(2) rnd some
  have free: "\<exists>i pool'. claimVoice 4 (1 / 2) (voicePool sample_Engine_1) = Some (i, pool') \<and>
      \<not> busy (voicePool sample_Engine_1 ! i) \<and> (\<forall>j<i. busy (voicePool sample_Engine_1 ! j))"
    by (simp only: if_True simp_thms) blast
  from after_second_note(1) after_first_note(1) live rnd all some steal free
  show ?thesis by blast
qed

theorem schedulerTick_monotone_witness:
  "audioState sample_Engine = Some sample_audioState \<and>
   musicDensity sample_audioState \<le> 1 \<and>
   ctx sample_Engine \<noteq> None \<and> voicePool sample_Engine \<noteq> [] \<and>
   drawsInRange sample_draws \<and>
   (\<exists>calls e'. schedulerTick sample_draws sample_Engine = Some (calls, e') \<and>
      (\<forall>l. layerTime l (nextTime sample_Engine) \<le> layerTime l (nextTime e')) \<and>
      (\<forall>l\<in>set calls. \<exists>c. ctx sample_Engine = Some c \<and>
           layerTime l (nextTime sample_Engine) < currentTime c + LOOKAHEAD))"
proof -
  have f: "audioState sample_Engine = Some sample_audioState"
    "musicDensity sample_audioState \<le> 1"
    "ctx sample_Engine \<noteq> None" "voicePool sample_Engine \<noteq> []"
    by (simp_all add: sample_Engine_fields sample_audioState_def)
  have h1: "\<forall>st. audioState sample_Engine = Some st \<longrightarrow> musicDensity st \<le> 1"
    using f(1,2) by simp
  have h2: "ctx sample_Engine \<noteq> None \<longrightarrow> voicePool sample_Engine \<noteq> []"
    using f(4) by simp
  from schedulerTick_monotone [OF h1 h2 sample_draws_ok] f sample_draws_ok
  show ?thesis by blast
qed

lemma sample_tick_calls:
  "\<exists>e'. schedulerTick sample_draws sample_Engine = Some ([Drone, Melody, Sparkle], e') \<and>
        drone (nextTime e') = 14 \<and> melody (nextTime e') = 15 / 4"
proof -
  let ?c = "\<lparr> currentTime = 0, suspended = False \<rparr>"
  have run: "ctx sample_Engine = Some ?c" "audioState sample_Engine = Some sample_audioState"
    "config_set sample_Engine" "\<not> suspended ?c"
    by (simp_all add: sample_Engine_fields)
  have ok: "musicDensity sample_audioState \<le> 1" "voicePool sample_Engine \<noteq> []"
    by (simp_all add: sample_audioState_def sample_Engine_fields)
  from schedulerTick_active [OF run ok sample_draws_ok] obtain calls e' where
    t: "schedulerTick sample_draws sample_Engine = Some (calls, e')"
    and calls: "calls = (if droneEnabled sample_audioState \<and>
                            drone (nextTime sample_Engine) < currentTime ?c + LOOKAHEAD
                         then [Drone] else [])
                 @ (if melodyEnabled sample_audioState \<and>
                       melody (nextTime sample_Engine) < currentTime ?c + LOOKAHEAD
                    then [Melody] else [])
                 @ (if sparkleEnabled sample_audioState \<and>
                       sparkle (nextTime sample_Engine) < currentTime ?c + LOOKAHEAD
                    then [Sparkle] else [])"
    by blast
  from calls have c: "calls = [Drone, Melody, Sparkle]"
    by (simp add: sample_audioState_def sample_Engine_fields LOOKAHEAD_def)
  obtain calls1 e1 where s1: "(calls1, e1) = ([Drone], scheduleDrone sample_Engine)" by simp
  have e1: "ctx e1 = Some ?c" "audioState e1 = Some sample_audioState" "config_set e1"
    "drone (nextTime e1) = 14" "melody (nextTime e1) = 0" "sparkle (nextTime e1) = 0"
    using s1 by (simp_all add: scheduleDrone_eq [OF run(1,2)] sample_Engine_fields
        sample_audioState_def)
  from t c obtain e2 where
    m: "scheduleMelody (melodyDraws sample_draws) e1 = Some e2"
    and s: "e' = scheduleSparkle (sparkleDraw sample_draws) e2"
    unfolding schedulerTick_run [OF run]
    using s1 e1(5)
    by (auto simp: Let_def sample_audioState_def sample_Engine_fields LOOKAHEAD_def
        split: option.splits if_splits)
  from scheduleMelody_result [OF m e1(1,2,3)] e1(4,5)
  have e2: "drone (nextTime e2) = 14" "melody (nextTime e2) = 15 / 4"
    "ctx e2 = Some ?c" "audioState e2 = Some sample_audioState"
    by (auto simp: sample_audioState_def e1)
  have "drone (nextTime e') = 14" "melody (nextTime e') = 15 / 4"
    using e2 by (simp_all add: s scheduleSparkle_eq [OF e2(3,4)])
  with t c show ?thesis by blast
qed

section \<open>Properties of the reactive mappings\<close>

text \<open>
  Claim C6. For a mapping whose base configuration value is the number \<open>base\<close>,
  \<^verbatim>\<open>_applyMapping\<close> returns \<open>base + energy * intensity * |base| * 0.5\<close> in mode add,
  \<open>base * (1 + energy * intensity)\<close> in mode multiply, and
  \<open>(min ?? 0) + energy * ((max ?? |base| * 2) - (min ?? 0))\<close> in mode set. Mode set with
  min 1, max 8 and energy 0.5 gives exactly 4.5; mode multiply with base 10, intensity 0.5
  and energy 1 gives exactly 15.
\<close>

theorem applyMapping_modes:
  assumes "config (parameter m) = Some (Num base)"
  shows "(mode m = ModeAdd \<longrightarrow>
            applyMapping m energy config = Some (base + energy * intensity m * \<bar>base\<bar> * (1 / 2))) \<and>
         (mode m = ModeMultiply \<longrightarrow>
            applyMapping m energy config = Some (base * (1 + energy * intensity m))) \<and>
         (mode m = ModeSet \<longrightarrow>
            applyMapping m energy config =
              Some (case_option 0 id (mapping_min m)
                    + energy * (case_option (\<bar>base\<bar> * 2) id (mapping_max m)
                                - case_option 0 id (mapping_min m)))) \<and>
         (mode m = ModeSet \<and> mapping_min m = Some 1 \<and> mapping_max m = Some 8 \<longrightarrow>
            applyMapping m (1 / 2) config = Some (9 / 2)) \<and>
         (mode m = ModeMultiply \<and> base = 10 \<and> intensity m = 1 / 2 \<longrightarrow>
            applyMapping m 1 config = Some 15)"
  using assms by (auto simp: applyMapping_def Let_def split: option.splits)

theorem applyMapping_modes_witness:
  "sample_config (parameter sample_mapping) = Some (Num 10) \<and>
   mode sample_mapping = ModeMultiply \<and> intensity sample_mapping = 1 / 2 \<and>
   applyMapping sample_mapping 1 sample_config = Some 15 \<and>
   sample_config (parameter (sample_mapping\<lparr> mode := ModeSet, mapping_min := Some 1,
                                              mapping_max := Some 8 \<rparr>)) = Some (Num 10) \<and>
   applyMapping (sample_mapping\<lparr> mode := ModeSet, mapping_min := Some 1, mapping_max := Some 8 \<rparr>)
     (1 / 2) sample_config = Some (9 / 2)"
proof -
  let ?set = "sample_mapping\<lparr> mode := ModeSet, mapping_min := Some 1, mapping_max := Some 8 \<rparr>"
  have a: "sample_config (parameter sample_mapping) = Some (Num 10)"
    and b: "sample_config (parameter ?set) = Some (Num 10)"
    by (simp_all add: sample_config_def sample_mapping_def)
  have c: "mode sample_mapping = ModeMultiply" "intensity sample_mapping = 1 / 2"
    "mode ?set = ModeSet" "mapping_min ?set = Some 1" "mapping_max ?set = Some 8"
    by (simp_all add: sample_mapping_def)
  from applyMapping_modes [where config = sample_config and m = sample_mapping
                             and base = 10 and energy = 1, OF a]
       applyMapping_modes [where config = sample_config and m = ?set
                             and base = 10 and energy = "1 / 2", OF b] a b c
  show ?thesis by simp
qed

section \<open>Properties of the beat detector\<close>

lemma foldl_plus_sum_list: "foldl (\<lambda>s v. s + v) a xs = a + sum_list xs" for a :: real
  by (induction xs arbitrary: a) simp_all

lemma latest_sample: "xs \<noteq> [] \<Longrightarrow> xs ! (length xs - 1) = last xs"
  by (simp add: last_conv_nth)

text \<open>
  Claim C8. \<^verbatim>\<open>isBeat()\<close> returns true exactly when the history holds at least 10
  samples, at least 200 ms have passed since the last declared beat, the mean of all
  samples other than the latest exceeds 0.02, and the latest sample exceeds 1.5 times
  that mean. It records the time of the call as the last beat exactly when it returns true.
\<close>

theorem isBeat_iff:
  "(fst (isBeat now e) \<longleftrightarrow>
      10 \<le> length (energyHistory e) \<and>
      200 \<le> now - lastBeatTime e \<and>
      2 / 100 < meanOfOthers (energyHistory e) \<and>
      3 / 2 * meanOfOthers (energyHistory e) < last (energyHistory e)) \<and>
   snd (isBeat now e) = (if fst (isBeat now e) then e\<lparr> lastBeatTime := now \<rparr> else e)"
proof (cases "10 \<le> length (energyHistory e)")
  case False
  then show ?thesis by (simp add: isBeat_def)
next
  case True
  then have ne: "energyHistory e \<noteq> []" by auto
  have avg: "foldl (\<lambda>s v. s + v) 0 (butlast (energyHistory e))
               / real (length (energyHistory e) - 1) = meanOfOthers (energyHistory e)"
    by (simp add: meanOfOthers_def foldl_plus_sum_list)
  have "isBeat now e =
          (if now - lastBeatTime e < 200 then (False, e)
           else if meanOfOthers (energyHistory e) > 2 / 100 \<and>
                   last (energyHistory e) > meanOfOthers (energyHistory e) * (3 / 2)
                then (True, e\<lparr> lastBeatTime := now \<rparr>)
                else (False, e))"
    unfolding isBeat_def Let_def avg latest_sample [OF ne] BEAT_COOLDOWN_MS_def BEAT_THRESHOLD_def
    using True by (simp only: not_less [symmetric] if_False simp_thms)
  then show ?thesis
    using True by (auto simp: mult.commute)
qed

theorem isBeat_iff_witness:
  "fst (isBeat 1200 sample_ReactiveEngine) \<and>
   10 \<le> length (energyHistory sample_ReactiveEngine) \<and>
   meanOfOthers (energyHistory sample_ReactiveEngine) = 1 / 10 \<and>
   last (energyHistory sample_ReactiveEngine) = 1 / 2 \<and>
   lastBeatTime (snd (isBeat 1200 sample_ReactiveEngine)) = 1200 \<and>
   \<not> fst (isBeat 1199 sample_ReactiveEngine)"
proof -
  have h: "10 \<le> length (energyHistory sample_ReactiveEngine)"
    "meanOfOthers (energyHistory sample_ReactiveEngine) = 1 / 10"
    "last (energyHistory sample_ReactiveEngine) = 1 / 2"
    "lastBeatTime sample_ReactiveEngine = 1000"
    by (simp_all add: sample_ReactiveEngine_def meanOfOthers_def)
  from isBeat_iff [of 1200 sample_ReactiveEngine] isBeat_iff [of 1199 sample_ReactiveEngine] h
  show ?thesis by simp
qed

end
